theory Spec2Isabelle
  imports Main
begin

chapter \<open>The model\<close>

section \<open>Data model\<close>

text \<open>
  The watchlist engine of \<^verbatim>\<open>plex-watchlist.service.ts\<close> (class
  \<^verbatim>\<open>PlexWatchlistService\<close>) and \<^verbatim>\<open>plex-test-service.ts\<close> (class
  \<^verbatim>\<open>PlexTestingWorkflow\<close>).

  Conventions of the embedding.
  \<^item> A thrown \<^verbatim>\<open>Error\<close> is the value \<open>Inl (Error msg)\<close> of a sum type; a
    rejected promise of a collaborator is an \<open>Inl\<close> as well.
  \<^item> A JavaScript \<^verbatim>\<open>Map\<close> is an association list in insertion order; a
    \<^verbatim>\<open>Set\<close> of objects is the list of its elements in insertion order. Objects are
    compared by reference, so two elements of such a list may be equal as values.
  \<^item> A field the declared type makes optional (\<^verbatim>\<open>thumb?\<close>, \<^verbatim>\<open>guids?\<close>,
    \<^verbatim>\<open>genres?\<close>) is an \<open>option\<close>; a required string or number is falsy when it
    is the empty string or zero.
  \<^item> Calls into the storage layer and the progress sink are recorded, in order, as a
    list of \<open>effect\<close>s.
\<close>

datatype error = Error string

record Friend =
  watchlistId :: string
  username :: string
  userId :: nat

text \<open>
  \<^verbatim>\<open>guids\<close> and \<^verbatim>\<open>genres\<close> of a stored row are either an array of strings or
  the JSON text of one (the code tests \<^verbatim>\<open>typeof item.guids === 'string'\<close>).
\<close>

datatype strings = StrArray "string list" | StrJson string

record Item =
  title :: string
  key :: string
  type :: string
  thumb :: "string option"
  guids :: "strings option"
  genres :: "strings option"

record TokenWatchlistItem = Item +
  id_raw :: string

datatype status = pending

record WatchlistItem = Item +
  user_id :: nat
  status :: status
  created_at :: string
  updated_at :: string

section \<open>pingPlex\<close>

text \<open>
  \<^verbatim>\<open>Promise.all\<close> resolves to the values of its promises, in their order, when all of
  them resolve, and rejects with the reason of the promise that rejects first in time.
  The list does not tell which rejection that is: it is chosen by the parameter
  \<open>first_rejected\<close> among the rejections (given in list order).
\<close>

definition Promise_all :: "(error list \<Rightarrow> error) \<Rightarrow> (error + 'a) list \<Rightarrow> error + 'a list" where
  "Promise_all first_rejected ps =
     (if list_ex isl ps then Inl (first_rejected (map projl (filter isl ps)))
      else Inr (map projr ps))"

text \<open>
  \<^verbatim>\<open>
  async pingPlex(): Promise<boolean> {
    const tokens = this.config.plexTokens
    if (tokens.length === 0) { throw new Error('No Plex tokens configured') }
    const results = await Promise.all(tokens.map((token, index) => pingPlex(token, this.log)))
    return results.every((result) => result === true)
  }
  \<close>
  The collaborator \<^verbatim>\<open>pingPlex\<close> of \<^verbatim>\<open>@utils/plex.js\<close> is the parameter
  \<open>ping\<close>; a rejected ping is \<open>Inl\<close>.
\<close>

definition pingPlex ::
  "(error list \<Rightarrow> error) \<Rightarrow> (string \<Rightarrow> error + bool) \<Rightarrow> string list \<Rightarrow> error + bool" where
  "pingPlex first_rejected ping tokens =
     (if length tokens = 0 then Inl (Error ''No Plex tokens configured'')
      else case Promise_all first_rejected (map ping tokens) of
             Inl e \<Rightarrow> Inl e
           | Inr results \<Rightarrow> Inr (list_all (\<lambda>result. result = True) results))"

section \<open>Reconciler: categorization\<close>

text \<open>
  A \<^verbatim>\<open>Map\<close>: \<^verbatim>\<open>get\<close> is \<^const>\<open>map_of\<close>; \<^verbatim>\<open>set\<close> replaces the value of a
  key that is present, in place, and appends a new key otherwise.
\<close>

fun Map_set :: "'k \<Rightarrow> 'v \<Rightarrow> ('k \<times> 'v) list \<Rightarrow> ('k \<times> 'v) list" where
  "Map_set k v [] = [(k, v)]"
| "Map_set k v ((a, b) # m) = (if a = k then (a, v) # m else (a, b) # Map_set k v m)"

text \<open>
  \<^verbatim>\<open>
  for (const item of existingItems) {
    if (!item.key || !item.user_id) continue
    let userMap = map.get(item.key)
    if (!userMap) { userMap = new Map<number, WatchlistItem>(); map.set(item.key, userMap) }
    userMap.set(item.user_id, item)
  }
  \<close>
\<close>

definition mapExistingItemsByKey_step ::
  "WatchlistItem \<Rightarrow> (string \<times> (nat \<times> WatchlistItem) list) list
     \<Rightarrow> (string \<times> (nat \<times> WatchlistItem) list) list" where
  "mapExistingItemsByKey_step item m =
     (if key item = [] \<or> user_id item = 0 then m
      else let userMap = (case map_of m (key item) of None \<Rightarrow> [] | Some um \<Rightarrow> um)
           in Map_set (key item) (Map_set (user_id item) item userMap) m)"

definition mapExistingItemsByKey ::
  "WatchlistItem list \<Rightarrow> (string \<times> (nat \<times> WatchlistItem) list) list" where
  "mapExistingItemsByKey existingItems = fold mapExistingItemsByKey_step existingItems []"

text \<open>\<^verbatim>\<open>templateItem.guids || []\<close>: \<^verbatim>\<open>undefined\<close> and the empty string are falsy.\<close>

fun or_empty :: "strings option \<Rightarrow> strings" where
  "or_empty None = StrArray []"
| "or_empty (Some (StrJson s)) = (if s = [] then StrArray [] else StrJson s)"
| "or_empty (Some (StrArray a)) = StrArray a"

text \<open>
  \<^verbatim>\<open>createWatchlistItem\<close>. Each of the two time stamps is its own
  \<^verbatim>\<open>new Date().toISOString()\<close>; the model takes the two readings of the clock, made
  one after the other, to be the one reading \<open>now\<close>. The stamps play no part in the
  categorization.
\<close>

definition createWatchlistItem ::
  "string \<Rightarrow> Friend \<Rightarrow> TokenWatchlistItem \<Rightarrow> WatchlistItem \<Rightarrow> WatchlistItem" where
  "createWatchlistItem now user item templateItem =
     \<lparr> title = title templateItem,
       key = id_raw item,
       type = type templateItem,
       thumb = thumb templateItem,
       guids = Some (or_empty (guids templateItem)),
       genres = Some (or_empty (genres templateItem)),
       user_id = userId user,
       status = pending,
       created_at = now,
       updated_at = now \<rparr>"

text \<open>
  The body of the loop of \<^verbatim>\<open>separateNewAndExistingItems\<close>, on the pair
  \<open>(newItems, itemsToLink)\<close>:
  \<^verbatim>\<open>
  const existingItem = existingItemsByKey.get(item.id)
  if (!existingItem) {
    newItems.add(item)
  } else if (!Array.from(existingItem.keys()).includes(user.userId)) {
    const templateItem = existingItem.values().next().value
    if (templateItem?.title && templateItem?.type) {
      itemsToLink.add(this.createWatchlistItem(user, item, templateItem))
    }
  }
  \<close>
\<close>

definition separate_step ::
  "string \<Rightarrow> Friend \<Rightarrow> (string \<times> (nat \<times> WatchlistItem) list) list \<Rightarrow> TokenWatchlistItem
     \<Rightarrow> TokenWatchlistItem list \<times> WatchlistItem list
     \<Rightarrow> TokenWatchlistItem list \<times> WatchlistItem list" where
  "separate_step now user existingItemsByKey item acc =
     (case map_of existingItemsByKey (id_raw item) of
        None \<Rightarrow> (fst acc @ [item], snd acc)
      | Some existingItem \<Rightarrow>
          if userId user \<notin> set (map fst existingItem) then
            (case existingItem of
               [] \<Rightarrow> acc
             | (u, templateItem) # rest \<Rightarrow>
                 if title templateItem \<noteq> [] \<and> type templateItem \<noteq> []
                 then (fst acc, snd acc @ [createWatchlistItem now user item templateItem])
                 else acc)
          else acc)"

definition separateNewAndExistingItems ::
  "string \<Rightarrow> TokenWatchlistItem list \<Rightarrow> Friend
     \<Rightarrow> (string \<times> (nat \<times> WatchlistItem) list) list
     \<Rightarrow> TokenWatchlistItem list \<times> WatchlistItem list" where
  "separateNewAndExistingItems now items user existingItemsByKey =
     fold (separate_step now user existingItemsByKey) items ([], [])"

text \<open>
  \<^verbatim>\<open>categorizeItems\<close>. The keys of \<^verbatim>\<open>userWatchlistMap\<close> are distinct
  \<^verbatim>\<open>Friend\<close> objects, so every \<^verbatim>\<open>set\<close> on the two result maps adds an entry.
\<close>

definition categorize_step ::
  "string \<Rightarrow> (string \<times> (nat \<times> WatchlistItem) list) list
     \<Rightarrow> Friend \<times> TokenWatchlistItem list
     \<Rightarrow> (Friend \<times> TokenWatchlistItem list) list \<times> (Friend \<times> WatchlistItem list) list
     \<Rightarrow> (Friend \<times> TokenWatchlistItem list) list \<times> (Friend \<times> WatchlistItem list) list" where
  "categorize_step now existingItemsByKey entry acc =
     (let user = fst entry;
          sep = separateNewAndExistingItems now (snd entry) user existingItemsByKey;
          newItems = fst sep;
          itemsToLink = snd sep
      in (if length newItems > 0 then fst acc @ [(user, newItems)] else fst acc,
          if length itemsToLink > 0 then snd acc @ [(user, itemsToLink)] else snd acc))"

definition categorizeItems ::
  "string \<Rightarrow> (Friend \<times> TokenWatchlistItem list) list \<Rightarrow> WatchlistItem list
     \<Rightarrow> (Friend \<times> TokenWatchlistItem list) list \<times> (Friend \<times> WatchlistItem list) list" where
  "categorizeItems now userWatchlistMap existingItems =
     (let existingItemsByKey = mapExistingItemsByKey existingItems
      in fold (categorize_step now existingItemsByKey) userWatchlistMap ([], []))"

text \<open>
  Predicates used to state the properties of the categorization. A stored row passes
  the guard of \<^verbatim>\<open>mapExistingItemsByKey\<close> when its key is not empty and its user id is
  not zero; \<open>rows_ok\<close> says that every stored row does.
\<close>

definition rows_with_key :: "WatchlistItem list \<Rightarrow> string \<Rightarrow> WatchlistItem list" where
  "rows_with_key existingItems k =
     filter (\<lambda>r. key r = k \<and> key r \<noteq> [] \<and> user_id r \<noteq> 0) existingItems"

definition grouped :: "WatchlistItem list \<Rightarrow> (string \<times> (nat \<times> WatchlistItem) list) list \<Rightarrow> bool" where
  "grouped ex m \<longleftrightarrow>
     (\<forall>k. map_of m k = None \<longrightarrow> rows_with_key ex k = []) \<and>
     (\<forall>k um. map_of m k = Some um \<longrightarrow>
        um \<noteq> [] \<and> set (map fst um) = user_id ` set (rows_with_key ex k) \<and>
        (\<forall>p \<in> set um. snd p \<in> set (rows_with_key ex k) \<and> user_id (snd p) = fst p))"

definition rows_ok :: "WatchlistItem list \<Rightarrow> bool" where
  "rows_ok existingItems \<longleftrightarrow> list_all (\<lambda>r. key r \<noteq> [] \<and> user_id r \<noteq> 0) existingItems"

text \<open>Example data: two token users, a raw item and a stored row.\<close>

definition ex_token1 :: Friend where
  "ex_token1 = \<lparr>watchlistId = ''token1'', username = ''token1'', userId = 1\<rparr>"

definition ex_token2 :: Friend where
  "ex_token2 = \<lparr>watchlistId = ''token2'', username = ''token2'', userId = 2\<rparr>"

definition ex_raw :: "string \<Rightarrow> TokenWatchlistItem" where
  "ex_raw k = \<lparr>title = ''Dune'', key = k, type = ''movie'', thumb = None,
               guids = Some (StrArray [''x:1'']), genres = None, id_raw = k\<rparr>"

definition ex_row :: "nat \<Rightarrow> string \<Rightarrow> string \<Rightarrow> WatchlistItem" where
  "ex_row u k t = \<lparr>title = t, key = k, type = ''movie'', thumb = None,
               guids = Some (StrArray [''x:1'']), genres = None, user_id = u,
               status = pending, created_at = ''t0'', updated_at = ''t0''\<rparr>"

text \<open>
  The JSON text \<^verbatim>\<open>["x:1"]\<close>; stored rows in which guids and genres are JSON text,
  the empty text or missing, a row without a title and a row without a user id; and raw
  items for their keys.
\<close>

definition ex_json :: string where
  "ex_json = CHR 0x5B # CHR 0x22 # ''x:1'' @ [CHR 0x22, CHR 0x5D]"



section \<open>Storage and progress effects\<close>

text \<open>
  The storage layer (\<^verbatim>\<open>dbService\<close>) and the progress sink are collaborators. A call
  that changes them is recorded as an \<open>effect\<close>; what a call returns is a parameter
  of the function that makes it. The model follows the runs in which these calls
  resolve; \<^verbatim>\<open>log\<close> calls are left out.
\<close>

record progress_event =
  operationId :: string
  type_e :: string
  phase :: string
  progress :: nat
  message :: string

datatype on_conflict = merge

datatype effect =
    CreateWatchlistItems "WatchlistItem list" "on_conflict option"
  | SyncGenresFromWatchlist
  | DeleteWatchlistItems nat "string list"
  | DeleteTempRssItems "nat list"
  | ProgressEmit progress_event
  | UpdateConfig nat string string
  | CreateUser string string

text \<open>
  \<^verbatim>\<open>new Set(xs)\<close> on strings: the distinct elements, each at its first occurrence.
\<close>

definition Set_add :: "'a \<Rightarrow> 'a list \<Rightarrow> 'a list" where
  "Set_add x s = (if x \<in> set s then s else s @ [x])"

definition Set_of :: "'a list \<Rightarrow> 'a list" where
  "Set_of xs = fold Set_add xs []"

section \<open>Removal detector\<close>

text \<open>
  \<^verbatim>\<open>
  private async handleRemovedItems(userId, currentKeys: Set<string>, fetchedKeys: Set<string>) {
    const removedKeys = Array.from(currentKeys).filter((key) => !fetchedKeys.has(key))
    if (removedKeys.length > 0) {
      await this.dbService.deleteWatchlistItems(userId, removedKeys)
    }
  }
  \<close>
  The state of the storage has the abstract type \<open>'db\<close>; \<open>deleteWatchlistItems\<close> is the
  parameter that gives the state after the deletion.
\<close>

definition handleRemovedItems ::
  "(nat \<Rightarrow> string list \<Rightarrow> 'db \<Rightarrow> 'db) \<Rightarrow> nat \<Rightarrow> string list \<Rightarrow> string list \<Rightarrow> 'db
     \<Rightarrow> 'db \<times> effect list" where
  "handleRemovedItems deleteWatchlistItems uid currentKeys fetchedKeys db =
     (let removedKeys = filter (\<lambda>k. k \<notin> set fetchedKeys) currentKeys
      in if length removedKeys > 0
         then (deleteWatchlistItems uid removedKeys db,
               [DeleteWatchlistItems uid removedKeys])
         else (db, []))"

text \<open>
  \<^verbatim>\<open>
  for (const [user, items] of userWatchlistMap.entries()) {
    const currentItems = await this.dbService.getAllWatchlistItemsForUser(user.userId)
    const currentKeys = new Set(currentItems.map((item) => item.key))
    const fetchedKeys = new Set(Array.from(items).map((item) => item.id))
    await this.handleRemovedItems(user.userId, currentKeys, fetchedKeys)
  }
  \<close>
\<close>

fun checkForRemovedItems ::
  "('db \<Rightarrow> nat \<Rightarrow> WatchlistItem list) \<Rightarrow> (nat \<Rightarrow> string list \<Rightarrow> 'db \<Rightarrow> 'db)
     \<Rightarrow> (Friend \<times> TokenWatchlistItem list) list \<Rightarrow> 'db \<Rightarrow> 'db \<times> effect list" where
  "checkForRemovedItems getAllWatchlistItemsForUser deleteWatchlistItems [] db = (db, [])"
| "checkForRemovedItems getAllWatchlistItemsForUser deleteWatchlistItems ((user, items) # rest) db =
     (let currentItems = getAllWatchlistItemsForUser db (userId user);
          currentKeys = Set_of (map key currentItems);
          fetchedKeys = Set_of (map id_raw items);
          handled = handleRemovedItems deleteWatchlistItems (userId user) currentKeys fetchedKeys db;
          later = checkForRemovedItems getAllWatchlistItemsForUser deleteWatchlistItems rest
                    (fst handled)
      in (fst later, snd handled @ snd later))"

section \<open>Pending-item matcher\<close>

text \<open>
  A row of the ephemeral store, as \<^verbatim>\<open>getTempRssItems(source)\<close> returns it: the code
  reads \<^verbatim>\<open>id\<close>, \<^verbatim>\<open>title\<close> and \<^verbatim>\<open>guids\<close> (an array of strings).
\<close>

record TempRssItem =
  id_p :: nat
  title_p :: string
  guids_p :: "string list"

datatype rss_source = self | friends

text \<open>
  The values \<^verbatim>\<open>JSON.parse\<close> can return. The matcher never looks inside a number, so
  the numbers are the integers here.
\<close>

datatype json =
    JNull
  | JBool bool
  | JNumber int
  | JString string
  | JArray "json list"
  | JObject "(string \<times> json) list"

text \<open>
  \<^verbatim>\<open>
  const itemGuids = (
    typeof item.guids === 'string' ? JSON.parse(item.guids) : item.guids
  ) as string[]
  if (pendingItem.guids.some((guid) => itemGuids.includes(guid))) { ... }
  \<close>
  \<^verbatim>\<open>JSON.parse\<close> is the parameter \<open>JSON_parse\<close>: \<open>Some v\<close> when the text is the JSON
  of the value \<open>v\<close>, \<open>None\<close> when it throws a \<^verbatim>\<open>SyntaxError\<close>. The cast
  \<^verbatim>\<open>as string[]\<close> checks nothing, so \<^verbatim>\<open>itemGuids\<close> is whatever was decoded, or
  \<^verbatim>\<open>undefined\<close> (\<open>None\<close> below) when the item has no \<^verbatim>\<open>guids\<close>.

  \<^verbatim>\<open>itemGuids.includes(guid)\<close> is \<^verbatim>\<open>Array.prototype.includes\<close> on an array (some
  element is the string \<^verbatim>\<open>guid\<close>), \<^verbatim>\<open>String.prototype.includes\<close> on a string
  (\<^verbatim>\<open>guid\<close> is a substring of it), and a \<^verbatim>\<open>TypeError\<close> on anything else:
  \<^verbatim>\<open>undefined\<close> and \<^verbatim>\<open>null\<close> have no properties, and on a boolean, a number or
  a decoded object \<^verbatim>\<open>includes\<close> is not a function.
\<close>

definition is_substring :: "string \<Rightarrow> string \<Rightarrow> bool" where
  "is_substring guid s =
     list_ex (\<lambda>i. take (length guid) (drop i s) = guid) [0 ..< Suc (length s)]"

fun includes_guid :: "json option \<Rightarrow> string \<Rightarrow> error + bool" where
  "includes_guid (Some (JArray elements)) guid = Inr (JString guid \<in> set elements)"
| "includes_guid (Some (JString s)) guid = Inr (is_substring guid s)"
| "includes_guid itemGuids guid = Inl (Error ''TypeError'')"

text \<open>
  \<^verbatim>\<open>pendingItem.guids.some(...)\<close> calls the test on the guids in order and stops at the
  first one that holds; a guid on which the test throws ends it with that error. With no
  pending guid the test is never called.
\<close>

fun guids_some :: "json option \<Rightarrow> string list \<Rightarrow> error + bool" where
  "guids_some itemGuids [] = Inr False"
| "guids_some itemGuids (guid # rest) =
     (case includes_guid itemGuids guid of
        Inl e \<Rightarrow> Inl e
      | Inr found \<Rightarrow> if found then Inr True else guids_some itemGuids rest)"

definition guids_match ::
  "(string \<Rightarrow> json option) \<Rightarrow> string list \<Rightarrow> strings option \<Rightarrow> error + bool" where
  "guids_match JSON_parse pendingGuids g =
     (case g of
        Some (StrJson s) \<Rightarrow>
          (case JSON_parse s of
             None \<Rightarrow> Inl (Error ''SyntaxError'')
           | Some itemGuids \<Rightarrow> guids_some (Some itemGuids) pendingGuids)
      | Some (StrArray a) \<Rightarrow> guids_some (Some (JArray (map JString a))) pendingGuids
      | None \<Rightarrow> guids_some None pendingGuids)"

text \<open>
  The inner loops: \<^verbatim>\<open>for (const item of items)\<close> with its \<^verbatim>\<open>break\<close> at the first
  match, and \<^verbatim>\<open>for (const [user, items] of userWatchlistMap.entries())\<close> with
  \<^verbatim>\<open>if (foundMatch) break\<close>.
\<close>

fun match_in_items ::
  "(string \<Rightarrow> json option) \<Rightarrow> string list \<Rightarrow> WatchlistItem list \<Rightarrow> error + bool" where
  "match_in_items JSON_parse pendingGuids [] = Inr False"
| "match_in_items JSON_parse pendingGuids (item # items) =
     (case guids_match JSON_parse pendingGuids (guids item) of
        Inl e \<Rightarrow> Inl e
      | Inr found \<Rightarrow> if found then Inr True else match_in_items JSON_parse pendingGuids items)"

fun match_in_map ::
  "(string \<Rightarrow> json option) \<Rightarrow> string list \<Rightarrow> (Friend \<times> WatchlistItem list) list
     \<Rightarrow> error + bool" where
  "match_in_map JSON_parse pendingGuids [] = Inr False"
| "match_in_map JSON_parse pendingGuids ((user, items) # rest) =
     (case match_in_items JSON_parse pendingGuids items of
        Inl e \<Rightarrow> Inl e
      | Inr found \<Rightarrow> if found then Inr True else match_in_map JSON_parse pendingGuids rest)"

text \<open>
  The outer loop \<^verbatim>\<open>for (const pendingItem of pendingItems)\<close>, on
  \<^verbatim>\<open>matchedItemIds\<close>; the two counters only feed the log.
\<close>

fun match_pending ::
  "(string \<Rightarrow> json option) \<Rightarrow> (Friend \<times> WatchlistItem list) list \<Rightarrow> TempRssItem list
     \<Rightarrow> nat list \<Rightarrow> error + nat list" where
  "match_pending JSON_parse userWatchlistMap [] matchedItemIds = Inr matchedItemIds"
| "match_pending JSON_parse userWatchlistMap (pendingItem # rest) matchedItemIds =
     (case match_in_map JSON_parse (guids_p pendingItem) userWatchlistMap of
        Inl e \<Rightarrow> Inl e
      | Inr foundMatch \<Rightarrow>
          match_pending JSON_parse userWatchlistMap rest
            (if foundMatch then matchedItemIds @ [id_p pendingItem] else matchedItemIds))"

text \<open>
  \<^verbatim>\<open>matchRssPendingItemsSelf\<close> and \<^verbatim>\<open>matchRssPendingItemsFriends\<close> have the same
  body, up to the source passed to \<^verbatim>\<open>getTempRssItems\<close> and the log texts:
  \<^verbatim>\<open>
  const pendingItems = await this.dbService.getTempRssItems('self')
  ... the loops ...
  if (matchedItemIds.length > 0) { await this.dbService.deleteTempRssItems(matchedItemIds) }
  \<close>
  Nothing catches an error of the loops: it leaves the method before the delete.
\<close>

definition matchRssPendingItems ::
  "rss_source \<Rightarrow> (string \<Rightarrow> json option) \<Rightarrow> (rss_source \<Rightarrow> TempRssItem list)
     \<Rightarrow> (Friend \<times> WatchlistItem list) list \<Rightarrow> effect list \<times> (error + unit)" where
  "matchRssPendingItems source JSON_parse getTempRssItems userWatchlistMap =
     (let pendingItems = getTempRssItems source
      in case match_pending JSON_parse userWatchlistMap pendingItems [] of
           Inl e \<Rightarrow> ([], Inl e)
         | Inr matchedItemIds \<Rightarrow>
             (if length matchedItemIds > 0 then [DeleteTempRssItems matchedItemIds] else [],
              Inr ()))"

definition matchRssPendingItemsSelf ::
  "(string \<Rightarrow> json option) \<Rightarrow> (rss_source \<Rightarrow> TempRssItem list)
     \<Rightarrow> (Friend \<times> WatchlistItem list) list \<Rightarrow> effect list \<times> (error + unit)" where
  "matchRssPendingItemsSelf = matchRssPendingItems self"

definition matchRssPendingItemsFriends ::
  "(string \<Rightarrow> json option) \<Rightarrow> (rss_source \<Rightarrow> TempRssItem list)
     \<Rightarrow> (Friend \<times> WatchlistItem list) list \<Rightarrow> effect list \<times> (error + unit)" where
  "matchRssPendingItemsFriends = matchRssPendingItems friends"

text \<open>
  The property of the claim. The guid array of an item is its \<^verbatim>\<open>guids\<close> when that is
  an array, and the strings of the decoded array when it is the JSON text of an array; an
  item without \<^verbatim>\<open>guids\<close>, or whose text does not decode to an array, has none. A
  pending item matches when one of its guids occurs in the guid array of some item of the
  reconciliation result.
\<close>

definition guid_array :: "(string \<Rightarrow> json option) \<Rightarrow> strings option \<Rightarrow> string list option" where
  "guid_array JSON_parse g =
     (case g of
        None \<Rightarrow> None
      | Some (StrArray a) \<Rightarrow> Some a
      | Some (StrJson s) \<Rightarrow>
          (case JSON_parse s of
             Some (JArray elements) \<Rightarrow>
               Some (concat (map (\<lambda>v. case v of JString x \<Rightarrow> [x] | _ \<Rightarrow> []) elements))
           | _ \<Rightarrow> None))"

definition item_matches ::
  "(string \<Rightarrow> json option) \<Rightarrow> string list \<Rightarrow> WatchlistItem \<Rightarrow> bool" where
  "item_matches JSON_parse pendingGuids item =
     (case guid_array JSON_parse (guids item) of
        None \<Rightarrow> False
      | Some itemGuids \<Rightarrow> list_ex (\<lambda>guid. guid \<in> set itemGuids) pendingGuids)"

definition has_match ::
  "(string \<Rightarrow> json option) \<Rightarrow> (Friend \<times> WatchlistItem list) list \<Rightarrow> string list \<Rightarrow> bool" where
  "has_match JSON_parse userWatchlistMap pendingGuids =
     list_ex (\<lambda>entry. list_ex (item_matches JSON_parse pendingGuids) (snd entry)) userWatchlistMap"

definition all_guid_arrays ::
  "(string \<Rightarrow> json option) \<Rightarrow> (Friend \<times> WatchlistItem list) list \<Rightarrow> bool" where
  "all_guid_arrays JSON_parse userWatchlistMap =
     list_all (\<lambda>entry. list_all (\<lambda>item. guid_array JSON_parse (guids item) \<noteq> None) (snd entry))
       userWatchlistMap"

text \<open>
  Example data: a decoder that knows the one text \<^verbatim>\<open>["x:1"]\<close>, two pending
  rows, a reconciliation result whose items all have a guid array, and one with an
  item that has no \<^verbatim>\<open>guids\<close>.
\<close>

definition ex_JSON_parse :: "string \<Rightarrow> json option" where
  "ex_JSON_parse s = (if s = ex_json then Some (JArray [JString ''x:1'']) else None)"

definition ex_pending :: "rss_source \<Rightarrow> TempRssItem list" where
  "ex_pending source =
     [\<lparr>id_p = 7, title_p = ''Dune'', guids_p = [''imdb:1'', ''x:1'']\<rparr>,
      \<lparr>id_p = 8, title_p = ''Heat'', guids_p = [''y:2'']\<rparr>]"

definition ex_result :: "(Friend \<times> WatchlistItem list) list" where
  "ex_result =
     [(ex_token1, [(ex_row 1 ''k0'' ''Ran'')\<lparr>guids := Some (StrArray [''z:3''])\<rparr>,
                   (ex_row 1 ''k1'' ''Dune'')\<lparr>guids := Some (StrJson ex_json)\<rparr>])]"

definition ex_result_no_guids :: "(Friend \<times> WatchlistItem list) list" where
  "ex_result_no_guids =
     [(ex_token1, [(ex_row 1 ''k1'' ''Dune'')\<lparr>guids := Some (StrArray [''x:1''])\<rparr>,
                   (ex_row 1 ''k0'' ''Ran'')\<lparr>guids := None\<rparr>])]"

section \<open>Reconciler: saving the brand-new items\<close>

text \<open>Decimal digits of a number, for the template strings.\<close>

fun show_nat :: "nat \<Rightarrow> string" where
  "show_nat n =
     (if n < 10 then [char_of (48 + n)]
      else show_nat (n div 10) @ [char_of (48 + n mod 10)])"

declare show_nat.simps [simp del]

definition startsWith :: "string \<Rightarrow> string \<Rightarrow> bool" where
  "startsWith s p = (take (length p) s = p)"

text \<open>
  \<^verbatim>\<open>prepareItemsForInsertion\<close>: one row per processed item, in the order of the map and
  of its sets. Every time stamp of every row is its own \<^verbatim>\<open>new Date().toISOString()\<close>;
  the model takes all these readings of the clock to be the one reading \<open>stamp\<close>.
\<close>

definition prepareItemsForInsertion ::
  "string \<Rightarrow> (Friend \<times> WatchlistItem list) list \<Rightarrow> WatchlistItem list" where
  "prepareItemsForInsertion stamp processedItems =
     concat (map (\<lambda>(user, items).
       map (\<lambda>item.
         \<lparr> title = title item,
           key = key item,
           type = type item,
           thumb = thumb item,
           guids = Some (or_empty (guids item)),
           genres = Some (or_empty (genres item)),
           user_id = userId user,
           status = pending,
           created_at = stamp,
           updated_at = stamp \<rparr>) items) processedItems)"

text \<open>
  What the collaborator \<^verbatim>\<open>processWatchlistItems\<close> of \<^verbatim>\<open>@utils/plex.js\<close> hands
  back: a \<^verbatim>\<open>Map\<close>, something that is not a \<^verbatim>\<open>Map\<close>, or a rejection. It is called
  with the brand-new items and, when progress is emitted, the operation id and the type.
\<close>

datatype processed = PwMap "(Friend \<times> WatchlistItem list) list" | PwNotMap | PwRejected error

text \<open>
  \<^verbatim>\<open>processAndSaveNewItems\<close>: nothing happens on an empty map; otherwise
  \<^verbatim>\<open>
  const operationId = `process-${Date.now()}`
  const emitProgress = this.fastify.progress.hasActiveConnections()
  const firstUser = Array.from(brandNewItems.keys())[0]
  const type = firstUser.username.startsWith('token') ? 'self-watchlist' : 'others-watchlist'
  if (emitProgress) { this.fastify.progress.emit({ ..., phase: 'start', progress: 0, ... }) }
  const processedItems = await processWatchlistItems(...)
  if (processedItems instanceof Map) {
    const itemsToInsert = this.prepareItemsForInsertion(processedItems)
    if (itemsToInsert.length > 0) {
      if (emitProgress) { emit phase 'saving', progress 95 }
      await this.dbService.createWatchlistItems(itemsToInsert)
      await this.dbService.syncGenresFromWatchlist()
      if (emitProgress) { emit phase 'complete', progress 100 }
    }
    return processedItems
  }
  throw new Error('Expected Map<Friend, Set<WatchlistItem>> from processWatchlistItems')
  \<close>
  \<open>now_ms\<close> is the printed \<^verbatim>\<open>Date.now()\<close>.
\<close>

definition processAndSaveNewItems ::
  "string \<Rightarrow> string \<Rightarrow> bool
     \<Rightarrow> ((Friend \<times> TokenWatchlistItem list) list \<Rightarrow> (string \<times> string) option \<Rightarrow> processed)
     \<Rightarrow> (Friend \<times> TokenWatchlistItem list) list
     \<Rightarrow> effect list \<times> (error + (Friend \<times> WatchlistItem list) list)" where
  "processAndSaveNewItems now_ms stamp hasActiveConnections processWatchlistItems brandNewItems =
     (case brandNewItems of
        [] \<Rightarrow> ([], Inr [])
      | (firstUser, firstItems) # others \<Rightarrow>
          let opId = ''process-'' @ now_ms;
              emitProgress = hasActiveConnections;
              ty = (if startsWith (username firstUser) ''token''
                    then ''self-watchlist'' else ''others-watchlist'');
              started =
                (if emitProgress
                 then [ProgressEmit \<lparr> operationId = opId, type_e = ty, phase = ''start'',
                         progress = 0,
                         message = ''Starting '' @ (if ty = ''self-watchlist'' then ''self'' else ''others'')
                                     @ '' watchlist processing'' \<rparr>]
                 else [])
          in case processWatchlistItems brandNewItems
                    (if emitProgress then Some (opId, ty) else None) of
               PwRejected e \<Rightarrow> (started, Inl e)
             | PwNotMap \<Rightarrow>
                 (started,
                  Inl (Error ''Expected Map<Friend, Set<WatchlistItem>> from processWatchlistItems''))
             | PwMap processedItems \<Rightarrow>
                 let itemsToInsert = prepareItemsForInsertion stamp processedItems
                 in if length itemsToInsert > 0
                    then (started
                          @ (if emitProgress
                             then [ProgressEmit \<lparr> operationId = opId, type_e = ty, phase = ''saving'',
                                     progress = 95,
                                     message = ''Saving '' @ show_nat (length itemsToInsert)
                                                 @ '' items to database'' \<rparr>]
                             else [])
                          @ [CreateWatchlistItems itemsToInsert None, SyncGenresFromWatchlist]
                          @ (if emitProgress
                             then [ProgressEmit \<lparr> operationId = opId, type_e = ty, phase = ''complete'',
                                     progress = 100,
                                     message = ''All items processed and saved'' \<rparr>]
                             else []),
                          Inr processedItems)
                    else (started, Inr processedItems))"

text \<open>
  \<^verbatim>\<open>linkExistingItems\<close>, the sibling that saves the linked rows.
\<close>

definition linkExistingItems :: "(Friend \<times> WatchlistItem list) list \<Rightarrow> effect list" where
  "linkExistingItems existingItemsToLink =
     (let linkItems = concat (map snd existingItemsToLink)
      in if length linkItems > 0
         then [CreateWatchlistItems linkItems (Some merge), SyncGenresFromWatchlist]
         else [])"

text \<open>
  The effects the claim speaks of: the storage write, the genre resync, and the progress
  events of phase \<^verbatim>\<open>saving\<close> and \<^verbatim>\<open>complete\<close>.
\<close>

fun saving_effect :: "effect \<Rightarrow> bool" where
  "saving_effect (CreateWatchlistItems rows c) = True"
| "saving_effect SyncGenresFromWatchlist = True"
| "saving_effect (ProgressEmit ev) = (phase ev = ''saving'' \<or> phase ev = ''complete'')"
| "saving_effect (DeleteWatchlistItems u ks) = False"
| "saving_effect (DeleteTempRssItems ids) = False"
| "saving_effect (UpdateConfig n a b) = False"
| "saving_effect (CreateUser n m) = False"

text \<open>Example data: a collaborator that turns every brand-new item into a processed item.\<close>

definition ex_processed :: "(Friend \<times> TokenWatchlistItem list) list \<Rightarrow> (string \<times> string) option \<Rightarrow> processed" where
  "ex_processed brandNewItems ctx =
     PwMap (map (\<lambda>(user, items). (user, map (\<lambda>i. ex_row 0 (id_raw i) (title i)) items)) brandNewItems)"

section \<open>The operations and their configuration errors\<close>

text \<open>A user record of the storage layer; the code reads its \<^verbatim>\<open>id\<close>.\<close>

record User =
  id_u :: nat
  name_u :: string

text \<open>
  \<^verbatim>\<open>ensureTokenUsers\<close>: for the token at index \<open>i\<close> the user \<^verbatim>\<open>token<i+1>\<close> is looked up
  and created when missing; \<^verbatim>\<open>if (!user.id) throw new Error(`No ID for user ...`)\<close>.
  The callbacks run under \<^verbatim>\<open>Promise.all\<close>, so every one of them runs, whatever the
  others do.
\<close>

definition ensureUser ::
  "(string \<Rightarrow> User option) \<Rightarrow> (string \<Rightarrow> string \<Rightarrow> User) \<Rightarrow> string \<Rightarrow> string
     \<Rightarrow> effect list \<times> (error + string \<times> nat)" where
  "ensureUser getUser createUser uname mapKey =
     (let found = getUser uname;
          user = (case found of
                    None \<Rightarrow> createUser uname (uname @ ''@placeholder.com'')
                  | Some u \<Rightarrow> u)
      in (case found of None \<Rightarrow> [CreateUser uname (uname @ ''@placeholder.com'')] | Some u \<Rightarrow> [],
          if id_u user = 0 then Inl (Error (''No ID for user '' @ uname))
          else Inr (mapKey, id_u user)))"

definition collect_userMap ::
  "(error list \<Rightarrow> error) \<Rightarrow> (effect list \<times> (error + string \<times> nat)) list
     \<Rightarrow> effect list \<times> (error + (string \<times> nat) list)" where
  "collect_userMap first_rejected results =
     (concat (map fst results),
      case Promise_all first_rejected (map snd results) of
        Inl e \<Rightarrow> Inl e
      | Inr entries \<Rightarrow> Inr (fold (\<lambda>entry. Map_set (fst entry) (snd entry)) entries []))"

definition ensureTokenUsers ::
  "(error list \<Rightarrow> error) \<Rightarrow> (string \<Rightarrow> User option) \<Rightarrow> (string \<Rightarrow> string \<Rightarrow> User) \<Rightarrow> string list
     \<Rightarrow> effect list \<times> (error + (string \<times> nat) list)" where
  "ensureTokenUsers first_rejected getUser createUser plexTokens =
     collect_userMap first_rejected
       (map (\<lambda>index. let uname = ''token'' @ show_nat (index + 1)
                      in ensureUser getUser createUser uname uname)
          [0 ..< length plexTokens])"

definition ensureFriendUsers ::
  "(error list \<Rightarrow> error) \<Rightarrow> (string \<Rightarrow> User option) \<Rightarrow> (string \<Rightarrow> string \<Rightarrow> User)
     \<Rightarrow> (Friend \<times> string) list \<Rightarrow> effect list \<times> (error + (string \<times> nat) list)" where
  "ensureFriendUsers first_rejected getUser createUser friendList =
     collect_userMap first_rejected
       (map (\<lambda>entry. ensureUser getUser createUser (username (fst entry)) (watchlistId (fst entry)))
          friendList)"

text \<open>
  The fan-out of \<^verbatim>\<open>getSelfWatchlist\<close> over the tokens:
  \<^verbatim>\<open>
  const username = `token${index + 1}`
  const userId = userMap.get(username)
  if (!userId) { this.log.error(...); return }
  const items = await fetchSelfWatchlist(tokenConfig, this.log, userId)
  if (items.size > 0) { userWatchlistMap.set(tokenUser, items) }
  \<close>
  An entry enters \<^verbatim>\<open>userWatchlistMap\<close> when the fetch of its token completes, so
  the order of the map is the order of completion; \<open>completion\<close> lists the indices of
  the tokens in that order (a permutation of \<open>0, ..., n - 1\<close>).
\<close>

definition in_order_of :: "nat list \<Rightarrow> 'a list list \<Rightarrow> 'a list" where
  "in_order_of completion entries =
     concat (map (\<lambda>i. case drop i entries of [] \<Rightarrow> [] | e # rest \<Rightarrow> e) completion)"

definition collectSelfWatchlists ::
  "(error list \<Rightarrow> error) \<Rightarrow> nat list \<Rightarrow> (string \<Rightarrow> nat \<Rightarrow> error + TokenWatchlistItem list)
     \<Rightarrow> (string \<times> nat) list \<Rightarrow> string list
     \<Rightarrow> error + (Friend \<times> TokenWatchlistItem list) list" where
  "collectSelfWatchlists first_rejected completion fetchSelfWatchlist userMap plexTokens =
     (case Promise_all first_rejected
        (map (\<lambda>(index, token).
           let uname = ''token'' @ show_nat (index + 1)
           in case map_of userMap uname of
                None \<Rightarrow> Inr []
              | Some uid \<Rightarrow>
                  if uid = 0 then Inr []
                  else case fetchSelfWatchlist token uid of
                         Inl e \<Rightarrow> Inl e
                       | Inr items \<Rightarrow>
                           Inr (if length items > 0
                                then [(\<lparr>watchlistId = uname, username = uname, userId = uid\<rparr>, items)]
                                else []))
          (enumerate 0 plexTokens)) of
        Inl e \<Rightarrow> Inl e
      | Inr entries \<Rightarrow> Inr (in_order_of completion entries))"

text \<open>
  \<^verbatim>\<open>getSelfWatchlist\<close>. Everything after the two checks (key extraction, lookup of the
  stored rows, categorization, saving, linking, pending-item matching, removal detection
  and the response) is the parameter \<open>reconcile\<close>; its parts are the sections above.
\<close>

definition getSelfWatchlist ::
  "(error list \<Rightarrow> error) \<Rightarrow> nat list
     \<Rightarrow> (string \<Rightarrow> User option) \<Rightarrow> (string \<Rightarrow> string \<Rightarrow> User)
     \<Rightarrow> (string \<Rightarrow> nat \<Rightarrow> error + TokenWatchlistItem list)
     \<Rightarrow> ((Friend \<times> TokenWatchlistItem list) list \<Rightarrow> effect list \<times> (error + 'r))
     \<Rightarrow> string list \<Rightarrow> effect list \<times> (error + 'r)" where
  "getSelfWatchlist first_rejected completion getUser createUser fetchSelfWatchlist reconcile
       plexTokens =
     (if length plexTokens = 0 then ([], Inl (Error ''No Plex token configured''))
      else case ensureTokenUsers first_rejected getUser createUser plexTokens of
             (eff, Inl e) \<Rightarrow> (eff, Inl e)
           | (eff, Inr userMap) \<Rightarrow>
               (case collectSelfWatchlists first_rejected completion fetchSelfWatchlist userMap
                       plexTokens of
                  Inl e \<Rightarrow> (eff, Inl e)
                | Inr userWatchlistMap \<Rightarrow>
                    if length userWatchlistMap = 0
                    then (eff, Inl (Error ''Unable to fetch watchlist items''))
                    else (eff @ fst (reconcile userWatchlistMap),
                          snd (reconcile userWatchlistMap))))"

text \<open>
  \<^verbatim>\<open>getOthersWatchlists\<close>. \<^verbatim>\<open>getFriends\<close> and \<^verbatim>\<open>getOthersWatchlist\<close> of
  \<^verbatim>\<open>@utils/plex.js\<close> are parameters; a friend without a user id is dropped from
  \<^verbatim>\<open>friendsWithIds\<close>.
\<close>

definition friendsWithIds :: "(string \<times> nat) list \<Rightarrow> (Friend \<times> string) list \<Rightarrow> (Friend \<times> string) list" where
  "friendsWithIds userMap friendList =
     concat (map (\<lambda>(friend, token).
       case map_of userMap (watchlistId friend) of
         None \<Rightarrow> []
       | Some uid \<Rightarrow> if uid = 0 then [] else [(friend\<lparr>userId := uid\<rparr>, token)]) friendList)"

definition getOthersWatchlists ::
  "(error list \<Rightarrow> error) \<Rightarrow> (string \<Rightarrow> User option) \<Rightarrow> (string \<Rightarrow> string \<Rightarrow> User)
     \<Rightarrow> error + (Friend \<times> string) list
     \<Rightarrow> ((Friend \<times> string) list \<Rightarrow> error + (Friend \<times> TokenWatchlistItem list) list)
     \<Rightarrow> ((Friend \<times> TokenWatchlistItem list) list \<Rightarrow> effect list \<times> (error + 'r))
     \<Rightarrow> string list \<Rightarrow> effect list \<times> (error + 'r)" where
  "getOthersWatchlists first_rejected getUser createUser getFriends getOthersWatchlist reconcile
       plexTokens =
     (if length plexTokens = 0 then ([], Inl (Error ''No Plex token configured''))
      else case getFriends of
             Inl e \<Rightarrow> ([], Inl e)
           | Inr friendList \<Rightarrow>
               (case ensureFriendUsers first_rejected getUser createUser friendList of
                  (eff, Inl e) \<Rightarrow> (eff, Inl e)
                | (eff, Inr userMap) \<Rightarrow>
                    (case getOthersWatchlist (friendsWithIds userMap friendList) of
                       Inl e \<Rightarrow> (eff, Inl e)
                     | Inr userWatchlistMap \<Rightarrow>
                         if length userWatchlistMap = 0
                         then (eff, Inl (Error ''Unable to fetch others' watchlist items''))
                         else (eff @ fst (reconcile userWatchlistMap),
                               snd (reconcile userWatchlistMap)))))"

text \<open>
  \<^verbatim>\<open>generateAndSaveRssFeeds\<close> answers with a value of the union type
  \<^verbatim>\<open>RssFeedsResponse\<close>: \<^verbatim>\<open>{ error }\<close> or \<^verbatim>\<open>{ self, friends }\<close>.
\<close>

datatype RssFeedsResponse = RssError string | RssFeeds string string

definition generateAndSaveRssFeeds ::
  "(string list \<Rightarrow> bool \<Rightarrow> error + string list) \<Rightarrow> bool \<Rightarrow> string list
     \<Rightarrow> effect list \<times> (error + RssFeedsResponse)" where
  "generateAndSaveRssFeeds getPlexWatchlistUrls skipFriendSync tokens =
     (if length tokens = 0 then ([], Inr (RssError ''No Plex token configured''))
      else case getPlexWatchlistUrls (Set_of tokens) skipFriendSync of
             Inl e \<Rightarrow> ([], Inl e)
           | Inr watchlistUrls \<Rightarrow>
               if length watchlistUrls = 0
               then ([], Inr (RssError ''Unable to fetch watchlist URLs''))
               else let selfRss = (case watchlistUrls of [] \<Rightarrow> [] | u # us \<Rightarrow> u);
                        friendsRss = (case watchlistUrls of u # v # us \<Rightarrow> v | _ \<Rightarrow> [])
                    in ([UpdateConfig 1 selfRss friendsRss], Inr (RssFeeds selfRss friendsRss)))"

section \<open>The RSS workflow\<close>

text \<open>
  \<^verbatim>\<open>PlexTestingWorkflow\<close> of \<^verbatim>\<open>plex-test-service.ts\<close>. An entry of a feed's watchlist
  (the file's own \<^verbatim>\<open>WatchlistItem\<close>, as \<^verbatim>\<open>mapRssItemsToWatchlist\<close> builds it) and the
  item that \<^verbatim>\<open>convertToTempItem\<close> makes of it:
\<close>

record WatchlistEntry =
  title_w :: string
  plexKey :: string
  type_w :: string
  thumb_w :: "string option"
  guids_w :: "string list option"
  genres_w :: "string list option"

record TemptRssWatchlistItem =
  title_t :: string
  type_t :: string
  thumb_t :: "string option"
  guids_t :: "string list option"
  genres_t :: "string list option"
  key_t :: string

text \<open>
  \<^verbatim>\<open>changeQueue\<close> is a \<^verbatim>\<open>Set\<close> of objects, and \<^verbatim>\<open>Set.has\<close> compares objects by
  reference. An object is therefore a pair of its address and its fields; the workflow
  carries the next free address, and each object literal takes a fresh one.
\<close>

type_synonym 'a obj = "nat \<times> 'a"

record PlexTestingWorkflow =
  lastQueueItemTime :: int
  changeQueue :: "TemptRssWatchlistItem obj list"
  previousSelfItems :: "(string \<times> WatchlistEntry) list"
  previousFriendsItems :: "(string \<times> WatchlistEntry) list"
  isRefreshing :: bool
  nextAddress :: nat

text \<open>
  \<^verbatim>\<open>
  for (const item of items) {
    if (item.guids && item.guids.length > 0) { itemMap.set(item.guids[0], item) }
  }
  \<close>
\<close>

definition createItemMap_step ::
  "WatchlistEntry \<Rightarrow> (string \<times> WatchlistEntry) list \<Rightarrow> (string \<times> WatchlistEntry) list" where
  "createItemMap_step item itemMap =
     (case guids_w item of
        None \<Rightarrow> itemMap
      | Some [] \<Rightarrow> itemMap
      | Some (g # gs) \<Rightarrow> Map_set g item itemMap)"

definition createItemMap :: "WatchlistEntry list \<Rightarrow> (string \<times> WatchlistEntry) list" where
  "createItemMap items = fold createItemMap_step items []"

definition convertToTempItem :: "WatchlistEntry \<Rightarrow> TemptRssWatchlistItem" where
  "convertToTempItem item =
     \<lparr> title_t = title_w item,
       type_t = type_w item,
       thumb_t = thumb_w item,
       guids_t = guids_w item,
       genres_t = genres_w item,
       key_t = plexKey item \<rparr>"

text \<open>
  \<^verbatim>\<open>
  const hasChanged =
    previousItem.title !== currentItem.title || previousItem.type !== currentItem.type ||
    previousItem.thumb !== currentItem.thumb ||
    JSON.stringify(previousItem.genres) !== JSON.stringify(currentItem.genres)
  \<close>
  \<^verbatim>\<open>JSON.stringify\<close> on an array of strings is the parameter \<open>stringify\<close>; of
  \<^verbatim>\<open>undefined\<close> it is \<^verbatim>\<open>undefined\<close>.
\<close>

definition hasChanged ::
  "(string list \<Rightarrow> string) \<Rightarrow> WatchlistEntry \<Rightarrow> WatchlistEntry \<Rightarrow> bool" where
  "hasChanged stringify previousItem currentItem =
     (title_w previousItem \<noteq> title_w currentItem \<or>
      type_w previousItem \<noteq> type_w currentItem \<or>
      thumb_w previousItem \<noteq> thumb_w currentItem \<or>
      map_option stringify (genres_w previousItem) \<noteq> map_option stringify (genres_w currentItem))"

text \<open>What \<^verbatim>\<open>detectChanges\<close> writes to the log.\<close>

datatype log_entry =
    NewItemDetected string string
  | ModifiedItemDetected string string
  | RemovedItemDetected string string
  | DetectedRssFeedChanges nat nat nat

text \<open>
  The first loop of \<^verbatim>\<open>detectChanges\<close>, over the entries of \<^verbatim>\<open>currentItems\<close>; the
  result is the set \<^verbatim>\<open>changes\<close>, the log and the next free address.
\<close>

fun detect_current ::
  "(string list \<Rightarrow> string) \<Rightarrow> (string \<times> WatchlistEntry) list \<Rightarrow> (string \<times> WatchlistEntry) list
     \<Rightarrow> nat \<Rightarrow> TemptRssWatchlistItem obj list \<times> log_entry list \<times> nat" where
  "detect_current stringify previousItems [] next = ([], [], next)"
| "detect_current stringify previousItems ((guid, currentItem) # rest) next =
     (case map_of previousItems guid of
        None \<Rightarrow>
          (case detect_current stringify previousItems rest (next + 1) of
             (changes, logs, next') \<Rightarrow>
               ((next, convertToTempItem currentItem) # changes,
                NewItemDetected guid (title_w currentItem) # logs, next'))
      | Some previousItem \<Rightarrow>
          if hasChanged stringify previousItem currentItem
          then (case detect_current stringify previousItems rest (next + 1) of
                  (changes, logs, next') \<Rightarrow>
                    ((next, convertToTempItem currentItem) # changes,
                     ModifiedItemDetected guid (title_w currentItem) # logs, next'))
          else detect_current stringify previousItems rest next)"

definition detectChanges ::
  "(string list \<Rightarrow> string) \<Rightarrow> (string \<times> WatchlistEntry) list \<Rightarrow> (string \<times> WatchlistEntry) list
     \<Rightarrow> nat \<Rightarrow> TemptRssWatchlistItem obj list \<times> log_entry list \<times> nat" where
  "detectChanges stringify previousItems currentItems next =
     (case detect_current stringify previousItems currentItems next of
        (changes, logs, next') \<Rightarrow>
          (changes,
           logs
           @ map (\<lambda>(guid, item). RemovedItemDetected guid (title_w item))
               (filter (\<lambda>(guid, item). map_of currentItems guid = None) previousItems)
           @ (if length changes > 0
              then [DetectedRssFeedChanges (length changes) (length previousItems)
                      (length currentItems)]
              else []),
           next'))"

text \<open>
  The calls of the workflow into the watchlist service.
\<close>

datatype service_call =
    StoreRssWatchlistItems "TemptRssWatchlistItem obj list" rss_source
  | FetchWatchlists

text \<open>
  \<^verbatim>\<open>
  for (const item of items) {
    if (!this.changeQueue.has(item)) { this.changeQueue.add(item); hasNewItems = true }
  }
  if (hasNewItems) {
    this.lastQueueItemTime = Date.now()
    try { await this.plexService.storeRssWatchlistItems(items, source) } catch (error) { ... }
  }
  \<close>
  \<^verbatim>\<open>has\<close> looks for the address of the object.
\<close>

fun addToQueue_loop ::
  "TemptRssWatchlistItem obj list \<Rightarrow> TemptRssWatchlistItem obj list \<times> bool
     \<Rightarrow> TemptRssWatchlistItem obj list \<times> bool" where
  "addToQueue_loop [] acc = acc"
| "addToQueue_loop (item # items) (queue, hasNewItems) =
     (if fst item \<notin> set (map fst queue)
      then addToQueue_loop items (queue @ [item], True)
      else addToQueue_loop items (queue, hasNewItems))"

definition addToQueue ::
  "TemptRssWatchlistItem obj list \<Rightarrow> rss_source \<Rightarrow> int \<Rightarrow> PlexTestingWorkflow
     \<Rightarrow> PlexTestingWorkflow \<times> service_call list" where
  "addToQueue items source now st =
     (case addToQueue_loop items (changeQueue st, False) of
        (queue, hasNewItems) \<Rightarrow>
          if hasNewItems
          then (st\<lparr>changeQueue := queue, lastQueueItemTime := now\<rparr>,
                [StoreRssWatchlistItems items source])
          else (st\<lparr>changeQueue := queue\<rparr>, []))"

text \<open>
  \<^verbatim>\<open>processRssResults\<close>; \<open>selfWatchlist\<close> is \<^verbatim>\<open>results.self.users[0]?.watchlist\<close>
  and \<open>friendsWatchlist\<close> the same of \<^verbatim>\<open>results.friends\<close>. The two readings of
  \<^verbatim>\<open>Date.now()\<close> are \<open>now1\<close> and \<open>now2\<close>.
\<close>

definition processRssResults ::
  "(string list \<Rightarrow> string) \<Rightarrow> WatchlistEntry list option \<Rightarrow> WatchlistEntry list option
     \<Rightarrow> int \<Rightarrow> int \<Rightarrow> PlexTestingWorkflow \<Rightarrow> PlexTestingWorkflow \<times> service_call list" where
  "processRssResults stringify selfWatchlist friendsWatchlist now1 now2 st =
     (let r1 =
        (case selfWatchlist of
           None \<Rightarrow> (st, [])
         | Some watchlist \<Rightarrow>
             let currentItems = createItemMap watchlist
             in case detectChanges stringify (previousSelfItems st) currentItems (nextAddress st) of
                  (changes, logs, next') \<Rightarrow>
                    let s1 = st\<lparr>nextAddress := next'\<rparr>;
                        q = (if length changes > 0 then addToQueue changes self now1 s1
                             else (s1, []))
                    in ((fst q)\<lparr>previousSelfItems := currentItems\<rparr>, snd q));
          r2 =
        (case friendsWatchlist of
           None \<Rightarrow> (fst r1, [])
         | Some watchlist \<Rightarrow>
             let currentItems = createItemMap watchlist
             in case detectChanges stringify (previousFriendsItems (fst r1)) currentItems
                       (nextAddress (fst r1)) of
                  (changes, logs, next') \<Rightarrow>
                    let s2 = (fst r1)\<lparr>nextAddress := next'\<rparr>;
                        q = (if length changes > 0 then addToQueue changes friends now2 s2
                             else (s2, []))
                    in ((fst q)\<lparr>previousFriendsItems := currentItems\<rparr>, snd q))
      in (fst r2, snd r1 @ snd r2))"

text \<open>
  The callback of \<^verbatim>\<open>startQueueProcessor\<close>, in two steps, since other callbacks run
  while it awaits \<^verbatim>\<open>fetchWatchlists\<close>:
  \<^verbatim>\<open>
  if (this.isRefreshing) { return }
  const timeSinceLastItem = Date.now() - this.lastQueueItemTime
  if (timeSinceLastItem >= 60000 && this.changeQueue.size > 0) {
    this.isRefreshing = true
    try {
      this.changeQueue.clear()
      await this.fetchWatchlists()
    } catch (error) {
      this.log.error('Error during watchlist refresh:', error)
    } finally {
      this.isRefreshing = false
    }
  }
  \<close>
  \<open>queue_tick_begin\<close> runs up to the \<^verbatim>\<open>await\<close> and tells whether a refresh was
  started; \<open>queue_tick_end\<close> runs from the outcome of \<^verbatim>\<open>fetchWatchlists\<close> on.
\<close>

definition queue_tick_begin ::
  "int \<Rightarrow> PlexTestingWorkflow \<Rightarrow> PlexTestingWorkflow \<times> service_call list" where
  "queue_tick_begin now st =
     (if isRefreshing st then (st, [])
      else let timeSinceLastItem = now - lastQueueItemTime st
           in if timeSinceLastItem \<ge> 60000 \<and> length (changeQueue st) > 0
              then (st\<lparr>isRefreshing := True, changeQueue := []\<rparr>, [FetchWatchlists])
              else (st, []))"

datatype outcome = Resolved | Rejected error

definition queue_tick_end :: "outcome \<Rightarrow> PlexTestingWorkflow \<Rightarrow> PlexTestingWorkflow" where
  "queue_tick_end result st =
     (case result of
        Resolved \<Rightarrow> st\<lparr>isRefreshing := False\<rparr>
      | Rejected e \<Rightarrow> st\<lparr>isRefreshing := False\<rparr>)"

text \<open>A tick that nothing interleaves with.\<close>

definition queue_tick :: "int \<Rightarrow> outcome \<Rightarrow> PlexTestingWorkflow \<Rightarrow> PlexTestingWorkflow" where
  "queue_tick now result st =
     (case queue_tick_begin now st of
        (st', calls) \<Rightarrow> if calls = [] then st' else queue_tick_end result st')"

text \<open>
  A model of \<^verbatim>\<open>JSON.stringify\<close> on arrays of strings, for the examples: the elements
  between double quotes, a backslash before every double quote and backslash, commas
  between the elements, brackets around them. \<^verbatim>\<open>JSON.stringify\<close> also escapes the
  control characters and the lone surrogates; the model leaves them as they are, and the
  examples hold none. The general statements take \<^verbatim>\<open>JSON.stringify\<close> as a parameter.
\<close>

fun json_escape :: "string \<Rightarrow> string" where
  "json_escape [] = []"
| "json_escape (c # cs) =
     (if c = CHR 0x22 \<or> c = CHR 0x5C then CHR 0x5C # c # json_escape cs
      else c # json_escape cs)"

fun json_elements :: "string list \<Rightarrow> string" where
  "json_elements [] = [CHR 0x5D]"
| "json_elements (x # xs) =
     CHR 0x22 # json_escape x @ CHR 0x22 #
       (if xs = [] then [CHR 0x5D] else CHR 0x2C # json_elements xs)"

definition JSON_stringify :: "string list \<Rightarrow> string" where
  "JSON_stringify xs = CHR 0x5B # json_elements xs"

definition ex_entry :: "string \<Rightarrow> string \<Rightarrow> WatchlistEntry" where
  "ex_entry g t = \<lparr> title_w = t, plexKey = ''rss-'' @ g, type_w = ''movie'', thumb_w = Some [],
                    guids_w = Some [g], genres_w = Some [''Drama''] \<rparr>"

definition ex_workflow :: PlexTestingWorkflow where
  "ex_workflow = \<lparr> lastQueueItemTime = 0, changeQueue = [], previousSelfItems = [],
                    previousFriendsItems = [], isRefreshing = False, nextAddress = 0 \<rparr>"

text \<open>The workflow after a first poll of the self feed, with three items.\<close>

definition ex_polled :: PlexTestingWorkflow where
  "ex_polled =
     fst (processRssResults JSON_stringify
            (Some [ex_entry ''g1'' ''Old'', ex_entry ''g2'' ''Gone'', ex_entry ''g4'' ''Same''])
            None 1000 1000 ex_workflow)"

text \<open>
  The items of the current snapshot that are new, or differ from the previous item under
  the same guid key in title, type, thumb or genres, the genres compared as values.
\<close>

definition new_or_modified ::
  "(string \<times> WatchlistEntry) list \<Rightarrow> string \<times> WatchlistEntry \<Rightarrow> bool" where
  "new_or_modified previousItems entry =
     (case map_of previousItems (fst entry) of
        None \<Rightarrow> True
      | Some p \<Rightarrow>
          title_w p \<noteq> title_w (snd entry) \<or> type_w p \<noteq> type_w (snd entry) \<or>
          thumb_w p \<noteq> thumb_w (snd entry) \<or> genres_w p \<noteq> genres_w (snd entry))"

chapter \<open>Properties\<close>

section \<open>Properties: pingPlex\<close>

lemma Promise_all_rejects: "isl (Promise_all first_rejected ps) \<longleftrightarrow> (\<exists>p \<in> set ps. isl p)"
  by (simp add: Promise_all_def list_ex_iff)

lemma Promise_all_resolved:
  "\<forall>p \<in> set ps. \<not> isl p \<Longrightarrow> Promise_all first_rejected ps = Inr (map projr ps)"
  by (simp add: Promise_all_def list_ex_iff)

lemma pingPlex_rejects:
  "tokens \<noteq> [] \<Longrightarrow> isl (pingPlex first_rejected ping tokens) \<longleftrightarrow> (\<exists>t \<in> set tokens. isl (ping t))"
  using Promise_all_rejects [of first_rejected "map ping tokens"]
  by (auto simp: pingPlex_def split: sum.splits)

lemma pingPlex_resolved:
  assumes ne: "tokens \<noteq> []" and ok: "\<forall>t \<in> set tokens. \<not> isl (ping t)"
  shows "pingPlex first_rejected ping tokens = Inr (\<forall>t \<in> set tokens. ping t = Inr True)"
proof -
  from ok have "Promise_all first_rejected (map ping tokens) = Inr (map projr (map ping tokens))"
    by (intro Promise_all_resolved) simp
  moreover have "list_all (\<lambda>result. result = True) (map projr (map ping tokens))
      \<longleftrightarrow> (\<forall>t \<in> set tokens. ping t = Inr True)"
  proof -
    have "projr (ping t) = True \<longleftrightarrow> ping t = Inr True" if "t \<in> set tokens" for t
      using ok that by (cases "ping t") auto
    then show ?thesis by (auto simp: list_all_iff)
  qed
  ultimately show ?thesis using ne by (simp add: pingPlex_def)
qed

text \<open>
  Claim C9, as stated: with tokens, \<^verbatim>\<open>pingPlex\<close> returns false, rather than throwing,
  when at least one token's ping returns false. A ping may also reject, and the
  rejection goes through \<^verbatim>\<open>Promise.all\<close> and the \<^verbatim>\<open>await\<close>: below, the ping of
  token \<open>a\<close> returns false, the ping of token \<open>b\<close> rejects, and \<^verbatim>\<open>pingPlex\<close> throws.
\<close>

theorem pingPlex_rejected_ping_counterexample:
  "(\<lambda>t. if t = ''a'' then Inr False else Inl (Error ''timeout'')) ''a'' = Inr False \<and>
   pingPlex hd (\<lambda>t. if t = ''a'' then Inr False else Inl (Error ''timeout'')) [''a'', ''b'']
     = Inl (Error ''timeout'')"
  by (simp add: pingPlex_def Promise_all_def)

text \<open>
  Claim C9, amended. \<^verbatim>\<open>pingPlex\<close> throws when no token is configured. With tokens,
  it throws exactly when the ping of some token rejects; it returns \<open>True\<close> exactly when
  the ping of every token returns \<open>True\<close>; and it returns \<open>False\<close>, rather than
  throwing, exactly when no ping rejects and the ping of at least one token returns
  \<open>False\<close>.
\<close>

theorem pingPlex_spec:
  "pingPlex first_rejected ping [] = Inl (Error ''No Plex tokens configured'') \<and>
   (tokens \<noteq> [] \<longrightarrow>
      (isl (pingPlex first_rejected ping tokens) \<longleftrightarrow> (\<exists>t \<in> set tokens. isl (ping t))) \<and>
      (pingPlex first_rejected ping tokens = Inr True \<longleftrightarrow> (\<forall>t \<in> set tokens. ping t = Inr True)) \<and>
      (pingPlex first_rejected ping tokens = Inr False \<longleftrightarrow>
         (\<forall>t \<in> set tokens. \<not> isl (ping t)) \<and> (\<exists>t \<in> set tokens. ping t = Inr False)))"
proof (intro conjI impI)
  show "pingPlex first_rejected ping [] = Inl (Error ''No Plex tokens configured'')"
    by (simp add: pingPlex_def)
next
  assume ne: "tokens \<noteq> []"
  show rej: "isl (pingPlex first_rejected ping tokens) \<longleftrightarrow> (\<exists>t \<in> set tokens. isl (ping t))"
    using ne by (rule pingPlex_rejects)
  show "pingPlex first_rejected ping tokens = Inr True \<longleftrightarrow> (\<forall>t \<in> set tokens. ping t = Inr True)"
  proof (cases "\<exists>t \<in> set tokens. isl (ping t)")
    case True
    with rej have "isl (pingPlex first_rejected ping tokens)" by simp
    moreover from True have "\<not> (\<forall>t \<in> set tokens. ping t = Inr True)" by fastforce
    ultimately show ?thesis by auto
  next
    case False
    with pingPlex_resolved [OF ne, of ping first_rejected] show ?thesis by simp
  qed
  show "pingPlex first_rejected ping tokens = Inr False \<longleftrightarrow>
         (\<forall>t \<in> set tokens. \<not> isl (ping t)) \<and> (\<exists>t \<in> set tokens. ping t = Inr False)"
  proof (cases "\<exists>t \<in> set tokens. isl (ping t)")
    case True
    with rej have "isl (pingPlex first_rejected ping tokens)" by simp
    with True show ?thesis by auto
  next
    case False
    have "(\<not> (\<forall>t \<in> set tokens. ping t = Inr True)) \<longleftrightarrow> (\<exists>t \<in> set tokens. ping t = Inr False)"
    proof
      assume "\<not> (\<forall>t \<in> set tokens. ping t = Inr True)"
      then obtain t where t: "t \<in> set tokens" "ping t \<noteq> Inr True" by blast
      with False have "ping t = Inr False" by (cases "ping t") auto
      with t show "\<exists>t \<in> set tokens. ping t = Inr False" by blast
    next
      assume "\<exists>t \<in> set tokens. ping t = Inr False"
      then show "\<not> (\<forall>t \<in> set tokens. ping t = Inr True)" by fastforce
    qed
    with False pingPlex_resolved [OF ne, of ping first_rejected] show ?thesis by simp
  qed
qed

theorem pingPlex_spec_witness:
  "[''a'', ''b''] \<noteq> ([] :: string list) \<and>
   pingPlex hd (\<lambda>t. Inr (t = ''a'')) [''a'', ''b''] = Inr False \<and>
   pingPlex hd (\<lambda>t. Inr True) [''a'', ''b''] = Inr True \<and>
   isl (pingPlex hd (\<lambda>t. if t = ''a'' then Inr False else Inl (Error ''timeout'')) [''a'', ''b''])"
proof -
  have ne: "[''a'', ''b''] \<noteq> ([] :: string list)" by simp
  have f: "(\<forall>t \<in> set [''a'', ''b'']. \<not> isl ((\<lambda>t. Inr (t = ''a'') :: error + bool) t)) \<and>
           (\<exists>t \<in> set [''a'', ''b'']. (\<lambda>t. Inr (t = ''a'') :: error + bool) t = Inr False)"
    by simp
  have t: "\<forall>t \<in> set [''a'', ''b'']. (\<lambda>t. Inr True :: error + bool) t = Inr True"
    by simp
  have r: "\<exists>t \<in> set [''a'', ''b''].
             isl ((\<lambda>t. if t = ''a'' then Inr False else Inl (Error ''timeout'') :: error + bool) t)"
    by simp
  from pingPlex_spec [of hd "\<lambda>t. Inr (t = ''a'')" "[''a'', ''b'']"] ne f
  have 1: "pingPlex hd (\<lambda>t. Inr (t = ''a'')) [''a'', ''b''] = Inr False" by blast
  from pingPlex_spec [of hd "\<lambda>t. Inr True" "[''a'', ''b'']"] ne t
  have 2: "pingPlex hd (\<lambda>t. Inr True) [''a'', ''b''] = Inr True" by blast
  from pingPlex_spec [of hd "\<lambda>t. if t = ''a'' then Inr False else Inl (Error ''timeout'')"
         "[''a'', ''b'']"] ne r
  have 3: "isl (pingPlex hd (\<lambda>t. if t = ''a'' then Inr False else Inl (Error ''timeout''))
                  [''a'', ''b''])" by blast
  from ne 1 2 3 show ?thesis by blast
qed

section \<open>Properties: Reconciler: categorization\<close>

lemmas ex_defs = ex_token1_def ex_token2_def ex_raw_def ex_row_def

subsection \<open>The grouping of the stored rows\<close>

lemma map_of_Map_set: "map_of (Map_set k v m) k' = (if k' = k then Some v else map_of m k')"
  by (induction m) auto

lemma map_fst_Map_set:
  "map fst (Map_set k v m) = (if k \<in> set (map fst m) then map fst m else map fst m @ [k])"
  by (induction m) (force split: if_splits)+

lemma keys_Map_set: "set (map fst (Map_set k v m)) = insert k (set (map fst m))"
  unfolding map_fst_Map_set by auto

lemma set_Map_set: "set (Map_set k v m) \<subseteq> insert (k, v) (set m)"
  by (induction m) (auto split: if_splits)

lemma Map_set_not_Nil: "Map_set k v m \<noteq> []"
  by (cases m) (auto split: if_splits)

lemma grouped_Nil: "grouped [] []"
  by (simp add: grouped_def rows_with_key_def)

lemma grouped_step:
  assumes "grouped ex m"
  shows "grouped (ex @ [x]) (mapExistingItemsByKey_step x m)"
proof (cases "key x = [] \<or> user_id x = 0")
  case True
  then have "rows_with_key (ex @ [x]) = rows_with_key ex"
    by (auto simp: rows_with_key_def fun_eq_iff)
  moreover from True have "mapExistingItemsByKey_step x m = m"
    by (simp add: mapExistingItemsByKey_step_def)
  ultimately show ?thesis
    using assms unfolding grouped_def by simp
next
  case False
  define um0 where "um0 = (case map_of m (key x) of None \<Rightarrow> [] | Some um \<Rightarrow> um)"
  define um1 where "um1 = Map_set (user_id x) x um0"
  have step: "mapExistingItemsByKey_step x m = Map_set (key x) um1 m"
    using False by (simp add: mapExistingItemsByKey_step_def um0_def um1_def)
  have other: "rows_with_key (ex @ [x]) k = rows_with_key ex k" if "k \<noteq> key x" for k
    using that by (auto simp: rows_with_key_def)
  have same: "rows_with_key (ex @ [x]) (key x) = rows_with_key ex (key x) @ [x]"
    using False by (auto simp: rows_with_key_def)
  have um0_keys: "set (map fst um0) = user_id ` set (rows_with_key ex (key x))"
    using assms unfolding grouped_def um0_def
    by (cases "map_of m (key x)") auto
  have um0_rows: "\<forall>p \<in> set um0. snd p \<in> set (rows_with_key ex (key x)) \<and> user_id (snd p) = fst p"
    using assms unfolding grouped_def um0_def
    by (cases "map_of m (key x)") auto
  have um1_ne: "um1 \<noteq> []" by (simp add: um1_def Map_set_not_Nil)
  have um1_keys: "set (map fst um1) = user_id ` set (rows_with_key (ex @ [x]) (key x))"
    unfolding um1_def keys_Map_set um0_keys same by simp
  have um1_rows: "\<forall>p \<in> set um1. snd p \<in> set (rows_with_key (ex @ [x]) (key x)) \<and> user_id (snd p) = fst p"
    using um0_rows set_Map_set [of "user_id x" x um0] unfolding um1_def same by auto
  show ?thesis
    unfolding grouped_def
  proof (intro conjI allI impI)
    fix k assume "map_of (mapExistingItemsByKey_step x m) k = None"
    then have "k \<noteq> key x" "map_of m k = None"
      by (auto simp: step map_of_Map_set split: if_splits)
    with assms show "rows_with_key (ex @ [x]) k = []"
      by (simp add: other grouped_def)
  next
    fix k um assume a: "map_of (mapExistingItemsByKey_step x m) k = Some um"
    show "um \<noteq> []"
      using a um1_ne assms by (auto simp: step map_of_Map_set grouped_def split: if_splits)
    show "set (map fst um) = user_id ` set (rows_with_key (ex @ [x]) k)"
    proof (cases "k = key x")
      case True
      with a um1_keys show ?thesis by (simp add: step map_of_Map_set)
    next
      case False
      with a assms show ?thesis by (simp add: step map_of_Map_set other grouped_def)
    qed
    show "\<forall>p \<in> set um. snd p \<in> set (rows_with_key (ex @ [x]) k) \<and> user_id (snd p) = fst p"
    proof (cases "k = key x")
      case True
      with a um1_rows show ?thesis by (simp add: step map_of_Map_set)
    next
      case False
      with a assms show ?thesis by (simp add: step map_of_Map_set other grouped_def)
    qed
  qed
qed

lemma grouped_mapExistingItemsByKey: "grouped ex (mapExistingItemsByKey ex)"
  unfolding mapExistingItemsByKey_def
proof (induction ex rule: rev_induct)
  case Nil
  show ?case by (simp add: grouped_Nil)
next
  case (snoc x xs)
  then show ?case by (simp add: grouped_step)
qed

lemma rows_with_key_ok:
  "rows_ok ex \<Longrightarrow> rows_with_key ex k = filter (\<lambda>r. key r = k) ex"
  unfolding rows_ok_def rows_with_key_def list_all_iff
  by (rule filter_cong) auto

lemma byKey_None:
  "rows_ok ex \<Longrightarrow> map_of (mapExistingItemsByKey ex) k = None \<longleftrightarrow> (\<forall>r \<in> set ex. key r \<noteq> k)"
proof -
  assume ok: "rows_ok ex"
  have g: "grouped ex (mapExistingItemsByKey ex)" by (rule grouped_mapExistingItemsByKey)
  show ?thesis
  proof
    assume "map_of (mapExistingItemsByKey ex) k = None"
    with g have "rows_with_key ex k = []" by (simp add: grouped_def)
    then show "\<forall>r \<in> set ex. key r \<noteq> k"
      by (simp add: rows_with_key_ok [OF ok] filter_empty_conv)
  next
    assume a: "\<forall>r \<in> set ex. key r \<noteq> k"
    show "map_of (mapExistingItemsByKey ex) k = None"
    proof (cases "map_of (mapExistingItemsByKey ex) k")
      case None then show ?thesis .
    next
      case (Some um)
      with g have "um \<noteq> []" "\<forall>p \<in> set um. snd p \<in> set (rows_with_key ex k)"
        by (auto simp: grouped_def)
      then obtain p where "snd p \<in> set (rows_with_key ex k)" by (cases um) auto
      with a show ?thesis by (auto simp: rows_with_key_def)
    qed
  qed
qed

lemma byKey_Some:
  assumes ok: "rows_ok ex" and s: "map_of (mapExistingItemsByKey ex) k = Some um"
  shows "\<exists>u t rest. um = (u, t) # rest \<and> t \<in> set ex \<and> key t = k"
    and "set (map fst um) = user_id ` {r \<in> set ex. key r = k}"
proof -
  have g: "grouped ex (mapExistingItemsByKey ex)" by (rule grouped_mapExistingItemsByKey)
  from g s have ne: "um \<noteq> []"
    and rows: "\<forall>p \<in> set um. snd p \<in> set (rows_with_key ex k)"
    and keys: "set (map fst um) = user_id ` set (rows_with_key ex k)"
    by (auto simp: grouped_def)
  from ne obtain u t rest where um: "um = (u, t) # rest" by (cases um) auto
  with rows have "t \<in> set (rows_with_key ex k)" by simp
  then have "t \<in> set ex \<and> key t = k" by (simp add: rows_with_key_def)
  with um show "\<exists>u t rest. um = (u, t) # rest \<and> t \<in> set ex \<and> key t = k" by blast
  from keys show "set (map fst um) = user_id ` {r \<in> set ex. key r = k}"
    by (simp add: rows_with_key_ok [OF ok])
qed

subsection \<open>One identity\<close>

lemma separate_step_acc:
  "separate_step now user bk item acc =
     (fst acc @ fst (separate_step now user bk item ([], [])),
      snd acc @ snd (separate_step now user bk item ([], [])))"
  by (simp add: separate_step_def split: option.splits list.splits)

lemma fold_separate_step:
  "fold (separate_step now user bk) items acc =
     (fst acc @ concat (map (\<lambda>i. fst (separate_step now user bk i ([], []))) items),
      snd acc @ concat (map (\<lambda>i. snd (separate_step now user bk i ([], []))) items))"
proof (induction items arbitrary: acc)
  case Nil
  show ?case by simp
next
  case (Cons i items)
  have "fst (separate_step now user bk i acc) = fst acc @ fst (separate_step now user bk i ([], []))"
    and "snd (separate_step now user bk i acc) = snd acc @ snd (separate_step now user bk i ([], []))"
    by (subst separate_step_acc, simp)+
  then show ?case
    by (simp add: Cons.IH)
qed

lemma separate_eq:
  "separateNewAndExistingItems now items user bk =
     (concat (map (\<lambda>i. fst (separate_step now user bk i ([], []))) items),
      concat (map (\<lambda>i. snd (separate_step now user bk i ([], []))) items))"
  by (simp add: separateNewAndExistingItems_def fold_separate_step)

lemma separate_step_new:
  assumes ok: "rows_ok ex"
  shows "fst (separate_step now user (mapExistingItemsByKey ex) i ([], [])) =
           (if \<forall>r \<in> set ex. key r \<noteq> id_raw i then [i] else [])"
proof (cases "map_of (mapExistingItemsByKey ex) (id_raw i)")
  case None
  with byKey_None [OF ok, of "id_raw i"] show ?thesis
    by (simp add: separate_step_def)
next
  case (Some um)
  with byKey_None [OF ok, of "id_raw i"] have "\<not> (\<forall>r \<in> set ex. key r \<noteq> id_raw i)"
    by simp
  with Some show ?thesis
    by (simp add: separate_step_def split: list.splits)
qed

lemma separate_step_link:
  assumes ok: "rows_ok ex"
    and some: "\<exists>r \<in> set ex. key r = k"
    and others: "\<forall>r \<in> set ex. key r = k \<longrightarrow> user_id r \<noteq> userId user"
  shows "\<exists>t \<in> set ex. key t = k \<and>
           (\<forall>i. id_raw i = k \<longrightarrow>
              snd (separate_step now user (mapExistingItemsByKey ex) i ([], [])) =
                (if title t \<noteq> [] \<and> type t \<noteq> [] then [createWatchlistItem now user i t] else []))"
proof -
  from some byKey_None [OF ok, of k]
  obtain um where um: "map_of (mapExistingItemsByKey ex) k = Some um" by auto
  from byKey_Some [OF ok um] obtain u t rest
    where shape: "um = (u, t) # rest" and t: "t \<in> set ex" "key t = k"
      and keys: "set (map fst um) = user_id ` {r \<in> set ex. key r = k}"
    by blast
  from keys others have notin: "userId user \<notin> set (map fst um)" by auto
  have "snd (separate_step now user (mapExistingItemsByKey ex) i ([], [])) =
          (if title t \<noteq> [] \<and> type t \<noteq> [] then [createWatchlistItem now user i t] else [])"
    if "id_raw i = k" for i
    using that um notin unfolding shape by (simp add: separate_step_def)
  with t show ?thesis by blast
qed

lemma separate_step_linked_only:
  assumes ok: "rows_ok ex"
    and l: "l \<in> set (snd (separate_step now user (mapExistingItemsByKey ex) i ([], [])))"
  shows "key l = id_raw i \<and> user_id l = userId user \<and>
         (\<exists>r \<in> set ex. key r = id_raw i) \<and>
         (\<forall>r \<in> set ex. key r = id_raw i \<longrightarrow> user_id r \<noteq> userId user)"
proof (cases "map_of (mapExistingItemsByKey ex) (id_raw i)")
  case None
  with l show ?thesis by (simp add: separate_step_def)
next
  case (Some um)
  with l have notin: "userId user \<notin> set (map fst um)"
    by (auto simp: separate_step_def split: if_splits)
  from byKey_Some [OF ok Some] obtain u t rest
    where shape: "um = (u, t) # rest" and t: "t \<in> set ex" "key t = id_raw i"
      and keys: "set (map fst um) = user_id ` {r \<in> set ex. key r = id_raw i}"
    by blast
  from l Some notin have "l = createWatchlistItem now user i t"
    unfolding shape by (auto simp: separate_step_def split: if_splits)
  then have "key l = id_raw i" "user_id l = userId user"
    by (simp_all add: createWatchlistItem_def)
  moreover from t have "\<exists>r \<in> set ex. key r = id_raw i" by blast
  moreover from keys notin have "\<forall>r \<in> set ex. key r = id_raw i \<longrightarrow> user_id r \<noteq> userId user"
    by force
  ultimately show ?thesis by simp
qed

lemma separate_new_filter:
  assumes ok: "rows_ok ex"
  shows "fst (separateNewAndExistingItems now items user (mapExistingItemsByKey ex)) =
           filter (\<lambda>i. \<forall>r \<in> set ex. key r \<noteq> id_raw i) items"
  unfolding separate_eq fst_conv separate_step_new [OF ok]
  by (induction items) simp_all

lemma separate_link_set:
  "set (snd (separateNewAndExistingItems now items user bk)) =
     (\<Union>i \<in> set items. set (snd (separate_step now user bk i ([], []))))"
  by (simp add: separate_eq)









subsection \<open>A whole pass\<close>

lemma categorize_step_fst:
  "fst (categorize_step now bk e acc) =
     fst acc @ (if fst (separateNewAndExistingItems now (snd e) (fst e) bk) \<noteq> []
                then [(fst e, fst (separateNewAndExistingItems now (snd e) (fst e) bk))] else [])"
  by (simp add: categorize_step_def Let_def)

lemma categorize_step_snd:
  "snd (categorize_step now bk e acc) =
     snd acc @ (if snd (separateNewAndExistingItems now (snd e) (fst e) bk) \<noteq> []
                then [(fst e, snd (separateNewAndExistingItems now (snd e) (fst e) bk))] else [])"
  by (simp add: categorize_step_def Let_def)

lemma fold_categorize_step:
  "fold (categorize_step now bk) uwm acc =
     (fst acc @ filter (\<lambda>e. snd e \<noteq> [])
        (map (\<lambda>e. (fst e, fst (separateNewAndExistingItems now (snd e) (fst e) bk))) uwm),
      snd acc @ filter (\<lambda>e. snd e \<noteq> [])
        (map (\<lambda>e. (fst e, snd (separateNewAndExistingItems now (snd e) (fst e) bk))) uwm))"
proof (induction uwm arbitrary: acc)
  case Nil
  show ?case by simp
next
  case (Cons e uwm)
  show ?case
    by (simp add: Cons.IH categorize_step_fst categorize_step_snd)
qed

lemma categorizeItems_eq:
  "categorizeItems now uwm ex =
     (filter (\<lambda>e. snd e \<noteq> [])
        (map (\<lambda>e. (fst e, fst (separateNewAndExistingItems now (snd e) (fst e)
                                   (mapExistingItemsByKey ex)))) uwm),
      filter (\<lambda>e. snd e \<noteq> [])
        (map (\<lambda>e. (fst e, snd (separateNewAndExistingItems now (snd e) (fst e)
                                   (mapExistingItemsByKey ex)))) uwm))"
  by (simp add: categorizeItems_def fold_categorize_step Let_def)

text \<open>
  Claim C1, as the spec states it: an identity that reports a raw item with no stored row
  of its own, while a row stored for another user has guids that intersect the raw
  item's, receives a linked row and no brand-new insert. The code never looks at the
  guids: the lookup is \<^verbatim>\<open>existingItemsByKey.get(item.id)\<close>. Below, token 1 has the stored
  row \<open>k1\<close> with guid \<open>x:1\<close>; token 2 reports the raw item \<open>k2\<close> with the same guid and is
  given a brand-new item and no link.
\<close>

theorem categorizeItems_guid_overlap_counterexample:
  "categorizeItems ''now''
      [(ex_token1, [ex_raw ''k1'']), (ex_token2, [ex_raw ''k2''])] [ex_row 1 ''k1'' ''Dune'']
     = ([(ex_token2, [ex_raw ''k2''])], []) \<and>
   guids (ex_row 1 ''k1'' ''Dune'') = Some (StrArray [''x:1'']) \<and>
   guids (ex_raw ''k2'') = Some (StrArray [''x:1'']) \<and>
   user_id (ex_row 1 ''k1'' ''Dune'') \<noteq> userId ex_token2"
  by (simp add: categorizeItems_def categorize_step_def separateNewAndExistingItems_def
      separate_step_def mapExistingItemsByKey_def mapExistingItemsByKey_step_def
      createWatchlistItem_def ex_defs)

text \<open>
  Claim C1, amended: content identity across users is decided by the key. If an
  identity reports a raw item whose id is the key of no stored row of its own, but of a
  row stored for another user, and the stored rows with that key have a title and a
  type, then the identity receives a linked row for that key and no identity has an
  item with that id among its brand-new items.
\<close>

theorem categorizeItems_links_by_key:
  assumes ok: "rows_ok existingItems"
    and cat: "categorizeItems now userWatchlistMap existingItems = (brandNewItems, existingItemsToLink)"
    and entry: "(user, items) \<in> set userWatchlistMap"
    and item: "item \<in> set items"
    and not_mine: "\<forall>r \<in> set existingItems. key r = id_raw item \<longrightarrow> user_id r \<noteq> userId user"
    and other: "\<exists>r \<in> set existingItems. key r = id_raw item"
    and titled: "\<forall>r \<in> set existingItems. key r = id_raw item \<longrightarrow> title r \<noteq> [] \<and> type r \<noteq> []"
  shows "(\<exists>ls. (user, ls) \<in> set existingItemsToLink \<and>
            (\<exists>l \<in> set ls. user_id l = userId user \<and> key l = id_raw item)) \<and>
         (\<forall>e \<in> set brandNewItems. \<forall>n \<in> set (snd e). id_raw n \<noteq> id_raw item)"
proof
  let ?bk = "mapExistingItemsByKey existingItems"
  define ls where "ls = snd (separateNewAndExistingItems now items user ?bk)"
  from separate_step_link [OF ok other not_mine, of now] titled
  obtain t where "t \<in> set existingItems"
    and "snd (separate_step now user ?bk item ([], [])) = [createWatchlistItem now user item t]"
    by auto
  with item have l: "createWatchlistItem now user item t \<in> set ls"
    unfolding ls_def separate_link_set by (auto intro: bexI [of _ item])
  then have "ls \<noteq> []" by auto
  with entry cat have "(user, ls) \<in> set existingItemsToLink"
    unfolding ls_def by (force simp: categorizeItems_eq)
  moreover have "user_id (createWatchlistItem now user item t) = userId user"
    and "key (createWatchlistItem now user item t) = id_raw item"
    by (simp_all add: createWatchlistItem_def)
  ultimately show "\<exists>ls. (user, ls) \<in> set existingItemsToLink \<and>
            (\<exists>l \<in> set ls. user_id l = userId user \<and> key l = id_raw item)"
    using l by blast
  show "\<forall>e \<in> set brandNewItems. \<forall>n \<in> set (snd e). id_raw n \<noteq> id_raw item"
  proof (intro ballI)
    fix e n assume e: "e \<in> set brandNewItems" and n: "n \<in> set (snd e)"
    from e cat obtain e' where "e' \<in> set userWatchlistMap"
      and "snd e = fst (separateNewAndExistingItems now (snd e') (fst e') ?bk)"
      by (auto simp: categorizeItems_eq)
    with n have "\<forall>r \<in> set existingItems. key r \<noteq> id_raw n"
      by (simp add: separate_new_filter [OF ok])
    with other show "id_raw n \<noteq> id_raw item" by metis
  qed
qed

theorem categorizeItems_links_by_key_witness:
  "categorizeItems ''now''
      [(ex_token1, [ex_raw ''k1'']), (ex_token2, [ex_raw ''k1''])] [ex_row 1 ''k1'' ''Dune'']
     = ([], [(ex_token2, [(ex_row 2 ''k1'' ''Dune'')\<lparr>genres := Some (StrArray []),
                            created_at := ''now'', updated_at := ''now''\<rparr>])]) \<and>
   (\<exists>ls. (ex_token2, ls) \<in> set [(ex_token2, [(ex_row 2 ''k1'' ''Dune'')\<lparr>genres := Some (StrArray []),
                            created_at := ''now'', updated_at := ''now''\<rparr>])] \<and>
         (\<exists>l \<in> set ls. user_id l = userId ex_token2 \<and> key l = id_raw (ex_raw ''k1'')))"
proof -
  let ?ex = "[ex_row 1 ''k1'' ''Dune'']"
  let ?uwm = "[(ex_token1, [ex_raw ''k1'']), (ex_token2, [ex_raw ''k1''])]"
  let ?link = "[(ex_token2, [(ex_row 2 ''k1'' ''Dune'')\<lparr>genres := Some (StrArray []),
                            created_at := ''now'', updated_at := ''now''\<rparr>])]"
  have ok: "rows_ok ?ex"
    by (simp add: rows_ok_def ex_defs)
  have cat: "categorizeItems ''now'' ?uwm ?ex = ([], ?link)"
    by (simp add: categorizeItems_def categorize_step_def separateNewAndExistingItems_def
      separate_step_def mapExistingItemsByKey_def mapExistingItemsByKey_step_def
      createWatchlistItem_def ex_defs)
  have entry: "(ex_token2, [ex_raw ''k1'']) \<in> set ?uwm" by simp
  have item: "ex_raw ''k1'' \<in> set [ex_raw ''k1'']" by simp
  have not_mine: "\<forall>r \<in> set ?ex. key r = id_raw (ex_raw ''k1'') \<longrightarrow> user_id r \<noteq> userId ex_token2"
    by (simp add: ex_defs)
  have other: "\<exists>r \<in> set ?ex. key r = id_raw (ex_raw ''k1'')"
    by (simp add: ex_defs)
  have titled: "\<forall>r \<in> set ?ex. key r = id_raw (ex_raw ''k1'') \<longrightarrow> title r \<noteq> [] \<and> type r \<noteq> []"
    by (simp add: ex_defs)
  from categorizeItems_links_by_key [OF ok cat entry item not_mine other titled] cat
  show ?thesis by blast
qed

section \<open>Properties: Removal detector\<close>

lemma set_Set_add: "set (Set_add x s) = insert x (set s)"
  by (auto simp: Set_add_def)

lemma distinct_Set_add: "distinct s \<Longrightarrow> distinct (Set_add x s)"
  by (simp add: Set_add_def)

lemma fold_Set_add: "set (fold Set_add xs s) = set xs \<union> set s"
  by (induction xs arbitrary: s) (auto simp: set_Set_add)

lemma distinct_fold_Set_add: "distinct s \<Longrightarrow> distinct (fold Set_add xs s)"
  by (induction xs arbitrary: s) (auto simp: distinct_Set_add)

lemma set_Set_of: "set (Set_of xs) = set xs"
  by (simp add: Set_of_def fold_Set_add)

lemma distinct_Set_of: "distinct (Set_of xs)"
  by (simp add: Set_of_def distinct_fold_Set_add)

lemma checkForRemovedItems_append:
  "checkForRemovedItems G D (pre @ post) db =
     (fst (checkForRemovedItems G D post (fst (checkForRemovedItems G D pre db))),
      snd (checkForRemovedItems G D pre db) @
      snd (checkForRemovedItems G D post (fst (checkForRemovedItems G D pre db))))"
proof (induction pre arbitrary: db)
  case Nil
  show ?case by simp
next
  case (Cons e pre)
  obtain user items where e: "e = (user, items)" by (cases e)
  show ?case
    unfolding e by (simp add: Cons.IH Let_def)
qed

text \<open>
  Claim C5. The empty pass makes no call and leaves the storage as it is. In a pass, take
  any identity \<open>(user, items)\<close>, with the identities \<open>pre\<close> before it and \<open>post\<close>
  after it, and let \<open>removed\<close> be the keys that are stored for \<open>userId user\<close> when its
  turn comes and are not among the ids just fetched for it. The pass is then: the pass
  over \<open>pre\<close>; one call \<^verbatim>\<open>deleteWatchlistItems(userId, removed)\<close> if \<open>removed\<close> is not
  empty, and no call and no change if it is; the pass over \<open>post\<close>. In particular a pass
  over one identity makes exactly that one call, or none.
\<close>

theorem checkForRemovedItems_deletes_difference:
  "checkForRemovedItems getAll del [] db = (db, []) \<and>
   (\<exists>removed.
      set removed = key ` set (getAll db (userId user)) - id_raw ` set items \<and>
      distinct removed \<and>
      checkForRemovedItems getAll del [(user, items)] db =
        (if removed = [] then (db, [])
         else (del (userId user) removed db, [DeleteWatchlistItems (userId user) removed]))) \<and>
   (\<exists>removed.
      set removed =
        key ` set (getAll (fst (checkForRemovedItems getAll del pre db)) (userId user))
          - id_raw ` set items \<and>
      distinct removed \<and>
      checkForRemovedItems getAll del (pre @ (user, items) # post) db =
        (fst (checkForRemovedItems getAll del post
               (if removed = [] then fst (checkForRemovedItems getAll del pre db)
                else del (userId user) removed (fst (checkForRemovedItems getAll del pre db)))),
         snd (checkForRemovedItems getAll del pre db) @
         (if removed = [] then [] else [DeleteWatchlistItems (userId user) removed]) @
         snd (checkForRemovedItems getAll del post
               (if removed = [] then fst (checkForRemovedItems getAll del pre db)
                else del (userId user) removed (fst (checkForRemovedItems getAll del pre db))))))"
proof (intro conjI)
  show "checkForRemovedItems getAll del [] db = (db, [])" by simp
  have step: "\<exists>removed.
      set removed = key ` set (getAll d (userId user)) - id_raw ` set items \<and>
      distinct removed \<and>
      checkForRemovedItems getAll del ((user, items) # rest) d =
        (fst (checkForRemovedItems getAll del rest
               (if removed = [] then d else del (userId user) removed d)),
         (if removed = [] then [] else [DeleteWatchlistItems (userId user) removed]) @
         snd (checkForRemovedItems getAll del rest
               (if removed = [] then d else del (userId user) removed d)))" for d rest
  proof -
    define removed where
      "removed = filter (\<lambda>k. k \<notin> set (Set_of (map id_raw items)))
                   (Set_of (map key (getAll d (userId user))))"
    have "set removed = key ` set (getAll d (userId user)) - id_raw ` set items"
      by (auto simp: removed_def set_Set_of)
    moreover have "distinct removed"
      by (simp add: removed_def distinct_Set_of)
    moreover have "checkForRemovedItems getAll del ((user, items) # rest) d =
        (fst (checkForRemovedItems getAll del rest
               (if removed = [] then d else del (userId user) removed d)),
         (if removed = [] then [] else [DeleteWatchlistItems (userId user) removed]) @
         snd (checkForRemovedItems getAll del rest
               (if removed = [] then d else del (userId user) removed d)))"
      by (simp add: removed_def [symmetric] handleRemovedItems_def Let_def)
    ultimately show ?thesis by blast
  qed
  from step [of db "[]"] show "\<exists>removed.
      set removed = key ` set (getAll db (userId user)) - id_raw ` set items \<and>
      distinct removed \<and>
      checkForRemovedItems getAll del [(user, items)] db =
        (if removed = [] then (db, [])
         else (del (userId user) removed db, [DeleteWatchlistItems (userId user) removed]))"
    by (auto split: if_splits)
  define db1 where "db1 = fst (checkForRemovedItems getAll del pre db)"
  from step [of db1 post] obtain removed where
    r: "set removed = key ` set (getAll db1 (userId user)) - id_raw ` set items" "distinct removed"
    and eq: "checkForRemovedItems getAll del ((user, items) # post) db1 =
        (fst (checkForRemovedItems getAll del post
               (if removed = [] then db1 else del (userId user) removed db1)),
         (if removed = [] then [] else [DeleteWatchlistItems (userId user) removed]) @
         snd (checkForRemovedItems getAll del post
               (if removed = [] then db1 else del (userId user) removed db1)))"
    by blast
  have "checkForRemovedItems getAll del (pre @ (user, items) # post) db =
        (fst (checkForRemovedItems getAll del post
               (if removed = [] then db1 else del (userId user) removed db1)),
         snd (checkForRemovedItems getAll del pre db) @
         (if removed = [] then [] else [DeleteWatchlistItems (userId user) removed]) @
         snd (checkForRemovedItems getAll del post
               (if removed = [] then db1 else del (userId user) removed db1)))"
    unfolding checkForRemovedItems_append [of getAll del pre] db1_def [symmetric] eq by simp
  with r show "\<exists>removed.
      set removed =
        key ` set (getAll (fst (checkForRemovedItems getAll del pre db)) (userId user))
          - id_raw ` set items \<and>
      distinct removed \<and>
      checkForRemovedItems getAll del (pre @ (user, items) # post) db =
        (fst (checkForRemovedItems getAll del post
               (if removed = [] then fst (checkForRemovedItems getAll del pre db)
                else del (userId user) removed (fst (checkForRemovedItems getAll del pre db)))),
         snd (checkForRemovedItems getAll del pre db) @
         (if removed = [] then [] else [DeleteWatchlistItems (userId user) removed]) @
         snd (checkForRemovedItems getAll del post
               (if removed = [] then fst (checkForRemovedItems getAll del pre db)
                else del (userId user) removed (fst (checkForRemovedItems getAll del pre db)))))"
    unfolding db1_def by blast
qed

section \<open>Properties: Pending-item matcher\<close>

lemma guids_some_array:
  "guids_some (Some (JArray elements)) pg = Inr (list_ex (\<lambda>guid. JString guid \<in> set elements) pg)"
  by (induction pg) simp_all

lemma strings_of_elements:
  "guid \<in> set (concat (map (\<lambda>v. case v of JString x \<Rightarrow> [x] | _ \<Rightarrow> []) elements))
     \<longleftrightarrow> JString guid \<in> set elements"
proof (induction elements)
  case Nil
  show ?case by simp
next
  case (Cons v elements)
  then show ?case by (cases v) auto
qed

lemma guids_match_array:
  "guid_array P (guids item) \<noteq> None \<Longrightarrow>
     guids_match P pg (guids item) = Inr (item_matches P pg item)"
proof (cases "guids item")
  case None
  assume "guid_array P (guids item) \<noteq> None"
  with None show ?thesis by (simp add: guid_array_def)
next
  case (Some g)
  assume a: "guid_array P (guids item) \<noteq> None"
  show ?thesis
  proof (cases g)
    case (StrArray xs)
    have "(\<lambda>guid. JString guid \<in> JString ` set xs) = (\<lambda>guid. guid \<in> set xs)"
      by auto
    with Some StrArray show ?thesis
      by (simp add: guids_match_def item_matches_def guid_array_def guids_some_array)
  next
    case (StrJson s)
    with Some a obtain elements where p: "P s = Some (JArray elements)"
      by (auto simp: guid_array_def split: option.splits json.splits)
    with Some StrJson show ?thesis
      by (simp add: guids_match_def item_matches_def guid_array_def guids_some_array
          strings_of_elements)
  qed
qed

lemma match_in_items_array:
  "list_all (\<lambda>item. guid_array P (guids item) \<noteq> None) items \<Longrightarrow>
     match_in_items P pg items = Inr (list_ex (item_matches P pg) items)"
proof (induction items)
  case Nil
  show ?case by simp
next
  case (Cons item items)
  then show ?case by (simp add: guids_match_array)
qed

lemma match_in_map_array:
  "all_guid_arrays P uwm \<Longrightarrow> match_in_map P pg uwm = Inr (has_match P uwm pg)"
proof (induction uwm)
  case Nil
  show ?case by (simp add: has_match_def)
next
  case (Cons e uwm)
  obtain user items where e: "e = (user, items)" by (cases e)
  from Cons show ?case
    unfolding e by (simp add: all_guid_arrays_def has_match_def match_in_items_array)
qed

lemma match_pending_array:
  "all_guid_arrays P uwm \<Longrightarrow>
     match_pending P uwm pend acc =
       Inr (acc @ map id_p (filter (\<lambda>p. has_match P uwm (guids_p p)) pend))"
proof (induction pend arbitrary: acc)
  case Nil
  show ?case by simp
next
  case (Cons p pend)
  then show ?case by (simp add: match_in_map_array)
qed

text \<open>
  When every item of the reconciliation result has a guid array, the pass completes and
  its only storage call is one \<^verbatim>\<open>deleteTempRssItems\<close> with the ids, in order, of the
  pending rows that have a match; it makes no call when there is none.
\<close>

lemma matchRssPendingItems_guid_arrays:
  "all_guid_arrays P uwm \<Longrightarrow>
     matchRssPendingItems source P getTempRssItems uwm =
       (if filter (\<lambda>p. has_match P uwm (guids_p p)) (getTempRssItems source) = [] then []
        else [DeleteTempRssItems
                (map id_p (filter (\<lambda>p. has_match P uwm (guids_p p)) (getTempRssItems source)))],
        Inr ())"
  by (simp add: matchRssPendingItems_def Let_def match_pending_array)

text \<open>A pass that throws deletes nothing.\<close>

lemma matchRssPendingItems_throws_no_delete:
  "isl (snd (matchRssPendingItems source P getTempRssItems uwm)) \<Longrightarrow>
     fst (matchRssPendingItems source P getTempRssItems uwm) = []"
  by (auto simp: matchRssPendingItems_def Let_def split: sum.splits)

lemma matchRssPendingItems_example:
  "all_guid_arrays ex_JSON_parse ex_result \<and>
   map (\<lambda>p. has_match ex_JSON_parse ex_result (guids_p p)) (ex_pending self) = [True, False] \<and>
   matchRssPendingItems self ex_JSON_parse ex_pending ex_result
     = ([DeleteTempRssItems [7]], Inr ())"
proof -
  have a: "all_guid_arrays ex_JSON_parse ex_result"
    by code_simp
  have m: "map (\<lambda>p. has_match ex_JSON_parse ex_result (guids_p p)) (ex_pending self) = [True, False]"
    by code_simp
  from matchRssPendingItems_guid_arrays [OF a, of self ex_pending] m
  have "matchRssPendingItems self ex_JSON_parse ex_pending ex_result
     = ([DeleteTempRssItems [7]], Inr ())"
    by (simp add: ex_pending_def)
  with a m show ?thesis by blast
qed

text \<open>
  Claim C7. The matcher fails the claim on a reconciliation result that holds an item
  without \<^verbatim>\<open>guids\<close> (the field is optional). Take the pending rows 7, with the guids
  \<^verbatim>\<open>imdb:1\<close> and \<^verbatim>\<open>x:1\<close>, and 8, with the guid \<^verbatim>\<open>y:2\<close>, and a result whose first item
  has the guid array \<^verbatim>\<open>["x:1"]\<close> and whose second item has no \<^verbatim>\<open>guids\<close>. Row 7 has
  a guid in the guid array of an item of the result and row 8 has none, so the claim has
  row 7 deleted. The scan of row 7 stops at the first item, with a match; the scan of
  row 8 comes to the second item and throws a \<^verbatim>\<open>TypeError\<close> there. The pass throws,
  \<^verbatim>\<open>deleteTempRssItems\<close> is never called, and row 7 stays in the store.
\<close>

theorem matchRssPendingItems_missing_guids_throws:
  "map (\<lambda>p. has_match ex_JSON_parse ex_result_no_guids (guids_p p)) (ex_pending self)
     = [True, False] \<and>
   match_in_map ex_JSON_parse [''imdb:1'', ''x:1''] ex_result_no_guids = Inr True \<and>
   match_in_map ex_JSON_parse [''y:2''] ex_result_no_guids = Inl (Error ''TypeError'') \<and>
   matchRssPendingItems self ex_JSON_parse ex_pending ex_result_no_guids
     = ([], Inl (Error ''TypeError'')) \<and>
   matchRssPendingItemsSelf ex_JSON_parse ex_pending ex_result_no_guids
     = ([], Inl (Error ''TypeError'')) \<and>
   matchRssPendingItemsFriends ex_JSON_parse ex_pending ex_result_no_guids
     = ([], Inl (Error ''TypeError''))"
  by code_simp

section \<open>Properties: Reconciler: saving the brand-new items\<close>

lemma saving_effect_needs_rows:
  assumes "e \<in> set (fst (processAndSaveNewItems now_ms stamp active pw brandNewItems))"
    and "saving_effect e"
  shows "\<exists>ctx processedItems.
           pw brandNewItems ctx = PwMap processedItems \<and>
           length (prepareItemsForInsertion stamp processedItems) > 0"
proof (cases brandNewItems)
  case Nil
  with assms show ?thesis by (simp add: processAndSaveNewItems_def)
next
  case (Cons first others)
  obtain firstUser firstItems where first: "first = (firstUser, firstItems)" by (cases first)
  define ty where "ty = (if startsWith (username firstUser) ''token''
                    then ''self-watchlist'' else ''others-watchlist'')"
  define ctx where "ctx = (if active then Some (''process-'' @ now_ms, ty) else None)"
  define started where "started = (if active
                 then [ProgressEmit \<lparr> operationId = ''process-'' @ now_ms, type_e = ty, phase = ''start'',
                         progress = 0,
                         message = ''Starting '' @ (if ty = ''self-watchlist'' then ''self'' else ''others'')
                                     @ '' watchlist processing'' \<rparr>]
                 else [])"
  have started: "\<not> saving_effect s" if "s \<in> set started" for s
    using that by (auto simp: started_def split: if_splits)
  have unfold: "processAndSaveNewItems now_ms stamp active pw brandNewItems =
    (case pw brandNewItems ctx of
               PwRejected e \<Rightarrow> (started, Inl e)
             | PwNotMap \<Rightarrow>
                 (started,
                  Inl (Error ''Expected Map<Friend, Set<WatchlistItem>> from processWatchlistItems''))
             | PwMap processedItems \<Rightarrow>
                 let itemsToInsert = prepareItemsForInsertion stamp processedItems
                 in if length itemsToInsert > 0
                    then (started
                          @ (if active
                             then [ProgressEmit \<lparr> operationId = ''process-'' @ now_ms, type_e = ty, phase = ''saving'',
                                     progress = 95,
                                     message = ''Saving '' @ show_nat (length itemsToInsert)
                                                 @ '' items to database'' \<rparr>]
                             else [])
                          @ [CreateWatchlistItems itemsToInsert None, SyncGenresFromWatchlist]
                          @ (if active
                             then [ProgressEmit \<lparr> operationId = ''process-'' @ now_ms, type_e = ty, phase = ''complete'',
                                     progress = 100,
                                     message = ''All items processed and saved'' \<rparr>]
                             else []),
                          Inr processedItems)
                    else (started, Inr processedItems))"
    unfolding processAndSaveNewItems_def Cons first ty_def ctx_def started_def
    by (simp only: list.case prod.case Let_def)
  show ?thesis
  proof (cases "pw brandNewItems ctx")
    case (PwMap processedItems)
    show ?thesis
    proof (cases "length (prepareItemsForInsertion stamp processedItems) > 0")
      case True
      with PwMap show ?thesis by blast
    next
      case False
      with PwMap assms started show ?thesis
        unfolding unfold by (auto simp: Let_def)
    qed
  next
    case PwNotMap
    with assms started show ?thesis
      unfolding unfold by auto
  next
    case (PwRejected err)
    with assms started show ?thesis
      unfolding unfold by auto
  qed
qed

text \<open>
  Claim C10. With an empty map of brand-new items, \<^verbatim>\<open>processAndSaveNewItems\<close> returns
  an empty map and has no effect at all: no storage write, no genre resync, no progress
  event. With any map, each of its effects that is a \<^verbatim>\<open>createWatchlistItems\<close> write, a
  \<^verbatim>\<open>syncGenresFromWatchlist\<close> call or a progress event of phase \<^verbatim>\<open>saving\<close> or
  \<^verbatim>\<open>complete\<close> occurs only when \<^verbatim>\<open>processWatchlistItems\<close> returned a map for which at
  least one row was prepared for insertion.
\<close>

theorem processAndSaveNewItems_saves_only_rows:
  "processAndSaveNewItems now_ms stamp active pw [] = ([], Inr []) \<and>
   (\<forall>e \<in> set (fst (processAndSaveNewItems now_ms stamp active pw brandNewItems)).
      saving_effect e \<longrightarrow>
        (\<exists>ctx processedItems.
           pw brandNewItems ctx = PwMap processedItems \<and>
           length (prepareItemsForInsertion stamp processedItems) > 0))"
proof (intro conjI ballI impI)
  show "processAndSaveNewItems now_ms stamp active pw [] = ([], Inr [])"
    by (simp add: processAndSaveNewItems_def)
next
  fix e
  assume "e \<in> set (fst (processAndSaveNewItems now_ms stamp active pw brandNewItems))"
    and "saving_effect e"
  then show "\<exists>ctx processedItems.
           pw brandNewItems ctx = PwMap processedItems \<and>
           length (prepareItemsForInsertion stamp processedItems) > 0"
    by (rule saving_effect_needs_rows)
qed

theorem processAndSaveNewItems_saves_only_rows_witness:
  "processAndSaveNewItems ''17'' ''now'' False ex_processed [(ex_token2, [ex_raw ''k2''])] =
     ([CreateWatchlistItems
         [(ex_row 2 ''k2'' ''Dune'')\<lparr>genres := Some (StrArray []), created_at := ''now'',
             updated_at := ''now''\<rparr>] None,
       SyncGenresFromWatchlist],
      Inr [(ex_token2, [ex_row 0 ''k2'' ''Dune''])]) \<and>
   saving_effect SyncGenresFromWatchlist \<and>
   (\<exists>ctx processedItems.
      ex_processed [(ex_token2, [ex_raw ''k2''])] ctx = PwMap processedItems \<and>
      length (prepareItemsForInsertion ''now'' processedItems) > 0)"
proof -
  have run: "processAndSaveNewItems ''17'' ''now'' False ex_processed [(ex_token2, [ex_raw ''k2''])] =
     ([CreateWatchlistItems
         [(ex_row 2 ''k2'' ''Dune'')\<lparr>genres := Some (StrArray []), created_at := ''now'',
             updated_at := ''now''\<rparr>] None,
       SyncGenresFromWatchlist],
      Inr [(ex_token2, [ex_row 0 ''k2'' ''Dune''])])"
    by (simp add: processAndSaveNewItems_def prepareItemsForInsertion_def ex_processed_def
        startsWith_def ex_defs)
  then have mem: "SyncGenresFromWatchlist \<in> set (fst (processAndSaveNewItems ''17'' ''now'' False
      ex_processed [(ex_token2, [ex_raw ''k2''])]))"
    by simp
  have sav: "saving_effect SyncGenresFromWatchlist" by simp
  from processAndSaveNewItems_saves_only_rows
         [of "''17''" "''now''" False ex_processed "[(ex_token2, [ex_raw ''k2''])]"] mem sav
  have "\<exists>ctx processedItems.
      ex_processed [(ex_token2, [ex_raw ''k2''])] ctx = PwMap processedItems \<and>
      length (prepareItemsForInsertion ''now'' processedItems) > 0"
    by blast
  with run sav show ?thesis by blast
qed

section \<open>Properties: The operations and their configuration errors\<close>

text \<open>
  Claim C8, as the spec states it: every core operation surfaces a configuration error as
  a thrown error, never as an error-valued result, and both fetch operations throw
  \<^verbatim>\<open>Unable to fetch watchlist items\<close> on an empty map. Without tokens,
  \<^verbatim>\<open>generateAndSaveRssFeeds\<close> returns the value \<^verbatim>\<open>{ error: 'No Plex token configured' }\<close>
  and throws nothing; and the error of \<^verbatim>\<open>getOthersWatchlists\<close> on an empty map has
  another text.
\<close>

theorem generateAndSaveRssFeeds_error_value_counterexample:
  "generateAndSaveRssFeeds (\<lambda>ts skip. Inr []) False []
     = ([], Inr (RssError ''No Plex token configured'')) \<and>
   snd (getOthersWatchlists hd (\<lambda>n. None) (\<lambda>n e. \<lparr>id_u = 1, name_u = n\<rparr>) (Inr [])
          (\<lambda>fs. Inr []) (\<lambda>uwm. ([], Inr uwm)) [''a''])
     = Inl (Error ''Unable to fetch others' watchlist items'') \<and>
   ''Unable to fetch others' watchlist items'' \<noteq> ''Unable to fetch watchlist items''"
  by (simp add: generateAndSaveRssFeeds_def getOthersWatchlists_def ensureFriendUsers_def
      collect_userMap_def friendsWithIds_def Promise_all_def)

text \<open>
  Claim C8, amended. \<^verbatim>\<open>getSelfWatchlist\<close> and \<^verbatim>\<open>getOthersWatchlists\<close> throw
  \<^verbatim>\<open>No Plex token configured\<close> when no token is configured. With tokens, once the users
  are resolved, \<^verbatim>\<open>getSelfWatchlist\<close> throws \<^verbatim>\<open>Unable to fetch watchlist items\<close> when the
  collected map is empty, and \<^verbatim>\<open>getOthersWatchlists\<close> throws
  \<^verbatim>\<open>Unable to fetch others' watchlist items\<close> when the map of the friends is empty.
  \<^verbatim>\<open>generateAndSaveRssFeeds\<close> does not throw on a missing configuration: without
  tokens it returns the error-valued result \<^verbatim>\<open>{ error: 'No Plex token configured' }\<close>,
  and with tokens but no feed URL obtained it returns
  \<^verbatim>\<open>{ error: 'Unable to fetch watchlist URLs' }\<close>; in both cases it writes nothing.
\<close>

theorem configuration_errors:
  "snd (getSelfWatchlist first_rejected completion getUser createUser fetchSelf reconcile [])
     = Inl (Error ''No Plex token configured'') \<and>
   snd (getOthersWatchlists first_rejected getUser createUser getFriends getOthers reconcile' [])
     = Inl (Error ''No Plex token configured'') \<and>
   (plexTokens \<noteq> [] \<and>
    snd (ensureTokenUsers first_rejected getUser createUser plexTokens) = Inr userMap \<and>
    collectSelfWatchlists first_rejected completion fetchSelf userMap plexTokens = Inr [] \<longrightarrow>
      snd (getSelfWatchlist first_rejected completion getUser createUser fetchSelf reconcile
             plexTokens)
        = Inl (Error ''Unable to fetch watchlist items'')) \<and>
   (plexTokens \<noteq> [] \<and> getFriends = Inr friendList \<and>
    snd (ensureFriendUsers first_rejected getUser createUser friendList) = Inr friendMap \<and>
    getOthers (friendsWithIds friendMap friendList) = Inr [] \<longrightarrow>
      snd (getOthersWatchlists first_rejected getUser createUser getFriends getOthers reconcile'
             plexTokens)
        = Inl (Error ''Unable to fetch others' watchlist items'')) \<and>
   generateAndSaveRssFeeds getUrls skipFriendSync []
     = ([], Inr (RssError ''No Plex token configured'')) \<and>
   (plexTokens \<noteq> [] \<and> getUrls (Set_of plexTokens) skipFriendSync = Inr [] \<longrightarrow>
      generateAndSaveRssFeeds getUrls skipFriendSync plexTokens
        = ([], Inr (RssError ''Unable to fetch watchlist URLs'')))"
proof (intro conjI impI)
  show "snd (getSelfWatchlist first_rejected completion getUser createUser fetchSelf reconcile [])
          = Inl (Error ''No Plex token configured'')"
    by (simp add: getSelfWatchlist_def)
  show "snd (getOthersWatchlists first_rejected getUser createUser getFriends getOthers reconcile' [])
          = Inl (Error ''No Plex token configured'')"
    by (simp add: getOthersWatchlists_def)
  show "generateAndSaveRssFeeds getUrls skipFriendSync []
          = ([], Inr (RssError ''No Plex token configured''))"
    by (simp add: generateAndSaveRssFeeds_def)
next
  assume "plexTokens \<noteq> [] \<and>
    snd (ensureTokenUsers first_rejected getUser createUser plexTokens) = Inr userMap \<and>
    collectSelfWatchlists first_rejected completion fetchSelf userMap plexTokens = Inr []"
  then show "snd (getSelfWatchlist first_rejected completion getUser createUser fetchSelf reconcile
             plexTokens)
        = Inl (Error ''Unable to fetch watchlist items'')"
    by (cases "ensureTokenUsers first_rejected getUser createUser plexTokens")
       (simp add: getSelfWatchlist_def)
next
  assume "plexTokens \<noteq> [] \<and> getFriends = Inr friendList \<and>
    snd (ensureFriendUsers first_rejected getUser createUser friendList) = Inr friendMap \<and>
    getOthers (friendsWithIds friendMap friendList) = Inr []"
  then show "snd (getOthersWatchlists first_rejected getUser createUser getFriends getOthers reconcile'
             plexTokens)
        = Inl (Error ''Unable to fetch others' watchlist items'')"
    by (cases "ensureFriendUsers first_rejected getUser createUser friendList")
       (simp add: getOthersWatchlists_def)
next
  assume "plexTokens \<noteq> [] \<and> getUrls (Set_of plexTokens) skipFriendSync = Inr []"
  then show "generateAndSaveRssFeeds getUrls skipFriendSync plexTokens
        = ([], Inr (RssError ''Unable to fetch watchlist URLs''))"
    by (simp add: generateAndSaveRssFeeds_def)
qed

theorem configuration_errors_witness:
  "[''a'', ''b''] \<noteq> [] \<and>
   snd (ensureTokenUsers hd (\<lambda>n. None) (\<lambda>n e. \<lparr>id_u = 3, name_u = n\<rparr>) [''a'', ''b''])
     = Inr [(''token1'', 3), (''token2'', 3)] \<and>
   collectSelfWatchlists hd [1, 0] (\<lambda>t u. Inr []) [(''token1'', 3), (''token2'', 3)] [''a'', ''b'']
     = Inr [] \<and>
   snd (getSelfWatchlist hd [1, 0] (\<lambda>n. None) (\<lambda>n e. \<lparr>id_u = 3, name_u = n\<rparr>) (\<lambda>t u. Inr [])
          (\<lambda>uwm. ([], Inr uwm)) [''a'', ''b''])
     = Inl (Error ''Unable to fetch watchlist items'') \<and>
   snd (getOthersWatchlists hd (\<lambda>n. None) (\<lambda>n e. \<lparr>id_u = 3, name_u = n\<rparr>) (Inr [])
          (\<lambda>fs. Inr []) (\<lambda>uwm. ([], Inr uwm)) [''a'', ''b''])
     = Inl (Error ''Unable to fetch others' watchlist items'') \<and>
   generateAndSaveRssFeeds (\<lambda>ts skip. Inr []) False [''a'', ''b'']
     = ([], Inr (RssError ''Unable to fetch watchlist URLs''))"
proof -
  let ?gu = "\<lambda>n :: string. None :: User option"
  let ?cu = "\<lambda>(n :: string) (e :: string). \<lparr>id_u = 3, name_u = n\<rparr>"
  let ?rec = "\<lambda>uwm :: (Friend \<times> TokenWatchlistItem list) list.
                ([] :: effect list, Inr uwm :: error + (Friend \<times> TokenWatchlistItem list) list)"
  let ?urls = "\<lambda>(ts :: string list) (skip :: bool). Inr [] :: error + string list"
  have ne: "[''a'', ''b''] \<noteq> ([] :: string list)" by simp
  have users: "snd (ensureTokenUsers hd ?gu ?cu [''a'', ''b''])
     = Inr [(''token1'', 3), (''token2'', 3)]"
    by code_simp
  have empty: "collectSelfWatchlists hd [1, 0] (\<lambda>t u. Inr []) [(''token1'', 3), (''token2'', 3)]
       [''a'', ''b''] = Inr []"
    by code_simp
  have friendMap: "snd (ensureFriendUsers hd ?gu ?cu []) = Inr []"
    by (simp add: ensureFriendUsers_def collect_userMap_def Promise_all_def)
  have others: "(\<lambda>fs :: (Friend \<times> string) list. Inr [] :: error + (Friend \<times> TokenWatchlistItem list) list)
      (friendsWithIds [] []) = Inr []"
    by simp
  have urls: "?urls (Set_of [''a'', ''b'']) False = Inr []"
    by simp
  from configuration_errors [of hd "[1, 0]" ?gu ?cu "\<lambda>t u. Inr []" ?rec "Inr []" "\<lambda>fs. Inr []" ?rec
         "[''a'', ''b'']" "[(''token1'', 3), (''token2'', 3)]" "[]" "[]" ?urls False]
       ne users empty friendMap others urls
  show ?thesis by simp
qed

section \<open>Properties: The RSS workflow\<close>

subsection \<open>The queue processor\<close>

text \<open>
  Claim C3, as the spec states it: a refresh is started only if the time since the last
  queued item exceeds the 60-second threshold. The test is
  \<^verbatim>\<open>timeSinceLastItem >= 60000\<close>: at exactly 60000 ms, which does not exceed the
  threshold, the refresh starts.
\<close>

theorem queue_tick_threshold_counterexample:
  "snd (queue_tick_begin 60000
          (ex_workflow\<lparr>changeQueue := [(0, convertToTempItem (ex_entry ''g1'' ''Dune''))]\<rparr>))
     = [FetchWatchlists] \<and>
   \<not> (60000 - lastQueueItemTime
          (ex_workflow\<lparr>changeQueue := [(0, convertToTempItem (ex_entry ''g1'' ''Dune''))]\<rparr>)
        > (60000 :: int))"
  by (simp add: queue_tick_begin_def ex_workflow_def)

text \<open>
  Claim C3, amended. On a tick of the queue processor at time \<open>now\<close>, a refresh is
  started exactly when no refresh is in progress, the change queue is not empty and the
  time since the last queued item is at least 60000 ms. When it starts, the guard is set
  and the queue is cleared; when it does not, the tick changes nothing. After the
  refresh, whether it resolved or threw, the guard is released and nothing else of the
  state is touched, so a later tick can start a refresh again.
\<close>

theorem queue_tick_single_flight:
  "(snd (queue_tick_begin now st) = [FetchWatchlists] \<longleftrightarrow>
      \<not> isRefreshing st \<and> changeQueue st \<noteq> [] \<and> now - lastQueueItemTime st \<ge> 60000) \<and>
   (snd (queue_tick_begin now st) = [FetchWatchlists] \<longrightarrow>
      fst (queue_tick_begin now st) = st\<lparr>isRefreshing := True, changeQueue := []\<rparr>) \<and>
   (snd (queue_tick_begin now st) \<noteq> [FetchWatchlists] \<longrightarrow>
      queue_tick_begin now st = (st, [])) \<and>
   queue_tick_end result st' = st'\<lparr>isRefreshing := False\<rparr> \<and>
   (isRefreshing st \<longrightarrow> queue_tick now result st = st) \<and>
   (\<not> isRefreshing st \<longrightarrow> \<not> isRefreshing (queue_tick now result st))"
  by (cases result) (auto simp: queue_tick_begin_def queue_tick_end_def queue_tick_def Let_def)

theorem queue_tick_single_flight_witness:
  "snd (queue_tick_begin 61000
          (ex_workflow\<lparr>changeQueue := [(0, convertToTempItem (ex_entry ''g1'' ''Dune''))]\<rparr>))
     = [FetchWatchlists] \<and>
   fst (queue_tick_begin 61000
          (ex_workflow\<lparr>changeQueue := [(0, convertToTempItem (ex_entry ''g1'' ''Dune''))]\<rparr>))
     = ex_workflow\<lparr>isRefreshing := True\<rparr> \<and>
   \<not> isRefreshing (queue_tick 61000 (Rejected (Error ''network''))
          (ex_workflow\<lparr>changeQueue := [(0, convertToTempItem (ex_entry ''g1'' ''Dune''))]\<rparr>))"
proof -
  let ?st = "ex_workflow\<lparr>changeQueue := [(0, convertToTempItem (ex_entry ''g1'' ''Dune''))]\<rparr>"
  have pre: "\<not> isRefreshing ?st \<and> changeQueue ?st \<noteq> [] \<and> 61000 - lastQueueItemTime ?st \<ge> 60000"
    by (simp add: ex_workflow_def)
  have upd: "?st\<lparr>isRefreshing := True, changeQueue := []\<rparr> = ex_workflow\<lparr>isRefreshing := True\<rparr>"
    by (simp add: ex_workflow_def)
  from queue_tick_single_flight [of 61000 ?st "Rejected (Error ''network'')" ?st] pre
  show ?thesis unfolding upd by blast
qed

subsection \<open>The model of JSON.stringify is injective\<close>

lemma json_escape_end:
  "json_escape s @ CHR 0x22 # r = json_escape t @ CHR 0x22 # r' \<Longrightarrow> s = t \<and> r = r'"
proof (induction s arbitrary: t)
  case Nil
  then show ?case by (cases t) (auto split: if_splits)
next
  case (Cons c cs)
  show ?case
  proof (cases t)
    case Nil
    with Cons.prems show ?thesis by (auto split: if_splits)
  next
    case (Cons d ds)
    with Cons.prems have "c = d \<and> json_escape cs @ CHR 0x22 # r = json_escape ds @ CHR 0x22 # r'"
      by (auto split: if_splits)
    with Cons.IH [of ds] Cons show ?thesis by simp
  qed
qed

lemma json_elements_inj: "json_elements xs = json_elements ys \<Longrightarrow> xs = ys"
proof (induction xs arbitrary: ys)
  case Nil
  then show ?case by (cases ys) auto
next
  case (Cons x xs)
  show ?case
  proof (cases ys)
    case Nil
    with Cons.prems show ?thesis by auto
  next
    case (Cons y ys')
    with Cons.prems have
      "json_escape x @ CHR 0x22 # (if xs = [] then [CHR 0x5D] else CHR 0x2C # json_elements xs)
         = json_escape y @ CHR 0x22 # (if ys' = [] then [CHR 0x5D] else CHR 0x2C # json_elements ys')"
      by simp
    from json_escape_end [OF this] have xy: "x = y"
      and rest: "(if xs = [] then [CHR 0x5D] else CHR 0x2C # json_elements xs)
                  = (if ys' = [] then [CHR 0x5D] else CHR 0x2C # json_elements ys')"
      by simp_all
    have "xs = ys'"
    proof (cases "xs = []")
      case True
      with rest show ?thesis by (cases "ys' = []") auto
    next
      case False
      with rest have "ys' \<noteq> []" "json_elements xs = json_elements ys'"
        by (auto split: if_splits)
      with Cons.IH show ?thesis by blast
    qed
    with xy Cons show ?thesis by simp
  qed
qed

lemma inj_JSON_stringify: "inj JSON_stringify"
  by (rule injI) (simp add: JSON_stringify_def json_elements_inj)

subsection \<open>The change detector\<close>

lemma detect_current_changes:
  "map snd (fst (detect_current S prev cur n)) =
     map (\<lambda>e. convertToTempItem (snd e))
       (filter (\<lambda>e. case map_of prev (fst e) of None \<Rightarrow> True | Some p \<Rightarrow> hasChanged S p (snd e)) cur)"
proof (induction cur arbitrary: n)
  case Nil
  show ?case by simp
next
  case (Cons e cur)
  obtain guid currentItem where e: "e = (guid, currentItem)" by (cases e)
  show ?case
  proof (cases "map_of prev guid")
    case None
    with Cons.IH [of "n + 1"] show ?thesis
      unfolding e by (auto split: prod.splits)
  next
    case (Some previousItem)
    with Cons.IH [of "n + 1"] Cons.IH [of n] show ?thesis
      unfolding e by (auto split: prod.splits)
  qed
qed

lemma hasChanged_inj:
  assumes "inj stringify"
  shows "hasChanged stringify p c \<longleftrightarrow>
           title_w p \<noteq> title_w c \<or> type_w p \<noteq> type_w c \<or> thumb_w p \<noteq> thumb_w c \<or>
           genres_w p \<noteq> genres_w c"
proof -
  from assms have "inj (map_option stringify)" by (rule option.inj_map)
  then have "map_option stringify (genres_w p) = map_option stringify (genres_w c)
               \<longleftrightarrow> genres_w p = genres_w c"
    by (simp add: inj_eq)
  then show ?thesis by (simp add: hasChanged_def)
qed

lemma createItemMap_step_guid:
  assumes "\<forall>e \<in> set m. \<exists>gs. guids_w (snd e) = Some (fst e # gs)"
  shows "\<forall>e \<in> set (createItemMap_step item m). \<exists>gs. guids_w (snd e) = Some (fst e # gs)"
proof (cases "guids_w item")
  case None
  with assms show ?thesis by (simp add: createItemMap_step_def)
next
  case (Some gl)
  show ?thesis
  proof (cases gl)
    case Nil
    with Some assms show ?thesis by (simp add: createItemMap_step_def)
  next
    case (Cons g gs)
    with Some have step: "createItemMap_step item m = Map_set g item m"
      by (simp add: createItemMap_step_def)
    show ?thesis
      unfolding step
    proof
      fix e assume "e \<in> set (Map_set g item m)"
      with set_Map_set [of g item m] have "e = (g, item) \<or> e \<in> set m" by auto
      with assms Some Cons show "\<exists>gs. guids_w (snd e) = Some (fst e # gs)" by auto
    qed
  qed
qed

lemma createItemMap_guid:
  "\<forall>e \<in> set (createItemMap items). \<exists>gs. guids_w (snd e) = Some (fst e # gs)"
  unfolding createItemMap_def
proof (induction items rule: rev_induct)
  case Nil
  show ?case by simp
next
  case (snoc item items)
  then show ?case by (simp add: createItemMap_step_guid)
qed

lemma detect_current_addresses:
  "map fst (fst (detect_current S prev cur n)) =
     [n ..< n + length (fst (detect_current S prev cur n))] \<and>
   snd (snd (detect_current S prev cur n)) = n + length (fst (detect_current S prev cur n))"
proof (induction cur arbitrary: n)
  case Nil
  show ?case by simp
next
  case (Cons e cur)
  obtain guid currentItem where e: "e = (guid, currentItem)" by (cases e)
  obtain ch lg m where r: "detect_current S prev cur (Suc n) = (ch, lg, m)"
    by (cases "detect_current S prev cur (Suc n)")
  from Cons.IH [of "Suc n"] have ih: "map fst ch = [Suc n ..< Suc n + length ch]" "m = Suc n + length ch"
    unfolding r by simp_all
  have up: "n # [Suc n ..< Suc n + length ch] = [n ..< n + length ((n, x) # ch)]" for x
    by (simp add: upt_conv_Cons del: upt_Suc)
  have emit: "map fst (fst ((n, x) # ch, l # lg, m)) = [n ..< n + length (fst ((n, x) # ch, l # lg, m))] \<and>
    snd (snd ((n, x) # ch, l # lg, m)) = n + length (fst ((n, x) # ch, l # lg, m))" for x l
    using ih up [of x] by simp
  show ?case
  proof (cases "map_of prev guid")
    case None
    with emit show ?thesis
      unfolding e by (simp add: r del: upt_Suc)
  next
    case (Some previousItem)
    show ?thesis
    proof (cases "hasChanged S previousItem currentItem")
      case True
      with Some emit show ?thesis
        unfolding e by (simp add: r del: upt_Suc)
    next
      case False
      with Some Cons.IH [of n] show ?thesis
        unfolding e by simp
    qed
  qed
qed

lemma detect_current_logs:
  "RemovedItemDetected g t \<notin> set (fst (snd (detect_current S prev cur n)))"
proof (induction cur arbitrary: n)
  case Nil
  show ?case by simp
next
  case (Cons e cur)
  obtain guid currentItem where e: "e = (guid, currentItem)" by (cases e)
  obtain ch lg m where r: "detect_current S prev cur (Suc n) = (ch, lg, m)"
    by (cases "detect_current S prev cur (Suc n)")
  from Cons.IH [of "Suc n"] have ih: "RemovedItemDetected g t \<notin> set lg"
    unfolding r by simp
  show ?case
  proof (cases "map_of prev guid")
    case None
    with ih show ?thesis
      unfolding e by (simp add: r)
  next
    case (Some previousItem)
    with ih Cons.IH [of n] show ?thesis
      unfolding e by (simp add: r)
  qed
qed

lemma addToQueue_loop_closed:
  "distinct (map fst items) \<Longrightarrow>
     addToQueue_loop items (queue, b) =
       (queue @ filter (\<lambda>c. fst c \<notin> fst ` set queue) items,
        b \<or> filter (\<lambda>c. fst c \<notin> fst ` set queue) items \<noteq> [])"
proof (induction items arbitrary: queue b)
  case Nil
  show ?case by simp
next
  case (Cons item items)
  from Cons.prems have d: "distinct (map fst items)" and n: "fst item \<notin> fst ` set items"
    by simp_all
  show ?case
  proof (cases "fst item \<in> fst ` set queue")
    case True
    with Cons.IH [OF d, of queue b] show ?thesis by simp
  next
    case False
    from n have "filter (\<lambda>c. fst c \<notin> fst ` set (queue @ [item])) items =
                 filter (\<lambda>c. fst c \<notin> fst ` set queue) items"
      by (intro filter_cong) (auto simp: image_iff)
    with False Cons.IH [OF d, of "queue @ [item]" True] show ?thesis by simp
  qed
qed

lemma detectChanges_parts:
  "fst (detectChanges S prev cur n) = fst (detect_current S prev cur n)"
  "snd (snd (detectChanges S prev cur n)) = snd (snd (detect_current S prev cur n))"
  "RemovedItemDetected g t \<in> set (fst (snd (detectChanges S prev cur n))) \<longleftrightarrow>
     (\<exists>e \<in> set prev. fst e = g \<and> title_w (snd e) = t \<and> map_of cur g = None)"
proof -
  show "fst (detectChanges S prev cur n) = fst (detect_current S prev cur n)"
    by (simp add: detectChanges_def split: prod.splits)
  show "snd (snd (detectChanges S prev cur n)) = snd (snd (detect_current S prev cur n))"
    by (simp add: detectChanges_def split: prod.splits)
  have "RemovedItemDetected g t \<in> set (fst (snd (detectChanges S prev cur n))) \<longleftrightarrow>
        RemovedItemDetected g t \<in> (\<lambda>(guid, item). RemovedItemDetected guid (title_w item)) `
            {e \<in> set prev. map_of cur (fst e) = None}"
    using detect_current_logs [of g t S prev cur n]
    by (auto simp: detectChanges_def case_prod_beta split: prod.splits)
  also have "\<dots> \<longleftrightarrow> (\<exists>e \<in> set prev. fst e = g \<and> title_w (snd e) = t \<and> map_of cur g = None)"
    by (auto simp: case_prod_beta)
  finally show "RemovedItemDetected g t \<in> set (fst (snd (detectChanges S prev cur n))) \<longleftrightarrow>
     (\<exists>e \<in> set prev. fst e = g \<and> title_w (snd e) = t \<and> map_of cur g = None)" .
qed


lemma detectChanges_addresses:
  "map fst (fst (detectChanges S prev cur n)) = [n ..< n + length (fst (detectChanges S prev cur n))]"
  "snd (snd (detectChanges S prev cur n)) = n + length (fst (detectChanges S prev cur n))"
  using detect_current_addresses [of S prev cur n] by (simp_all add: detectChanges_parts)

lemma addToQueue_closed:
  assumes "map fst items = [n ..< n + length items]"
  shows "addToQueue items source now st =
     (st\<lparr>changeQueue := changeQueue st @ filter (\<lambda>c. fst c \<notin> fst ` set (changeQueue st)) items,
         lastQueueItemTime :=
           (if filter (\<lambda>c. fst c \<notin> fst ` set (changeQueue st)) items = []
            then lastQueueItemTime st else now)\<rparr>,
      if filter (\<lambda>c. fst c \<notin> fst ` set (changeQueue st)) items = [] then []
      else [StoreRssWatchlistItems items source])"
proof -
  from assms have "distinct (map fst items)" by simp
  from addToQueue_loop_closed [OF this, of "changeQueue st" False] show ?thesis
    by (simp add: addToQueue_def)
qed

lemma poll_self:
  "processRssResults S (Some sw) None now1 now2 st =
     (st\<lparr>nextAddress :=
           nextAddress st +
           length (fst (detectChanges S (previousSelfItems st) (createItemMap sw) (nextAddress st))),
         changeQueue :=
           changeQueue st @
           filter (\<lambda>c. fst c \<notin> fst ` set (changeQueue st))
             (fst (detectChanges S (previousSelfItems st) (createItemMap sw) (nextAddress st))),
         lastQueueItemTime :=
           (if filter (\<lambda>c. fst c \<notin> fst ` set (changeQueue st))
                 (fst (detectChanges S (previousSelfItems st) (createItemMap sw) (nextAddress st))) = []
            then lastQueueItemTime st else now1),
         previousSelfItems := createItemMap sw\<rparr>,
      if filter (\<lambda>c. fst c \<notin> fst ` set (changeQueue st))
           (fst (detectChanges S (previousSelfItems st) (createItemMap sw) (nextAddress st))) = []
      then []
      else [StoreRssWatchlistItems
              (fst (detectChanges S (previousSelfItems st) (createItemMap sw) (nextAddress st))) self])"
proof -
  obtain changes logs n' where
    d: "detectChanges S (previousSelfItems st) (createItemMap sw) (nextAddress st) = (changes, logs, n')"
    by (cases "detectChanges S (previousSelfItems st) (createItemMap sw) (nextAddress st)")
  from detectChanges_addresses [of S "previousSelfItems st" "createItemMap sw" "nextAddress st"]
  have a: "map fst changes = [nextAddress st ..< nextAddress st + length changes]"
    and n': "n' = nextAddress st + length changes"
    unfolding d by simp_all
  show ?thesis
  proof (cases "changes = []")
    case True
    then show ?thesis
      by (simp add: processRssResults_def d n')
  next
    case False
    show ?thesis
      using False
      by (simp add: processRssResults_def d addToQueue_closed [OF a] n')
  qed
qed


lemma poll_friends:
  "processRssResults S None (Some fw) now1 now2 st =
     (st\<lparr>nextAddress :=
           nextAddress st +
           length (fst (detectChanges S (previousFriendsItems st) (createItemMap fw) (nextAddress st))),
         changeQueue :=
           changeQueue st @
           filter (\<lambda>c. fst c \<notin> fst ` set (changeQueue st))
             (fst (detectChanges S (previousFriendsItems st) (createItemMap fw) (nextAddress st))),
         lastQueueItemTime :=
           (if filter (\<lambda>c. fst c \<notin> fst ` set (changeQueue st))
                 (fst (detectChanges S (previousFriendsItems st) (createItemMap fw) (nextAddress st))) = []
            then lastQueueItemTime st else now2),
         previousFriendsItems := createItemMap fw\<rparr>,
      if filter (\<lambda>c. fst c \<notin> fst ` set (changeQueue st))
           (fst (detectChanges S (previousFriendsItems st) (createItemMap fw) (nextAddress st))) = []
      then []
      else [StoreRssWatchlistItems
              (fst (detectChanges S (previousFriendsItems st) (createItemMap fw) (nextAddress st)))
              friends])"
proof -
  obtain changes logs n' where
    d: "detectChanges S (previousFriendsItems st) (createItemMap fw) (nextAddress st) = (changes, logs, n')"
    by (cases "detectChanges S (previousFriendsItems st) (createItemMap fw) (nextAddress st)")
  from detectChanges_addresses [of S "previousFriendsItems st" "createItemMap fw" "nextAddress st"]
  have a: "map fst changes = [nextAddress st ..< nextAddress st + length changes]"
    and n': "n' = nextAddress st + length changes"
    unfolding d by simp_all
  show ?thesis
  proof (cases "changes = []")
    case True
    then show ?thesis
      by (simp add: processRssResults_def d n')
  next
    case False
    then show ?thesis
      by (simp add: processRssResults_def d addToQueue_closed [OF a] n')
  qed
qed

lemma poll_both:
  "processRssResults S (Some sw) (Some fw) now1 now2 st =
     (case processRssResults S (Some sw) None now1 now2 st of
        (st1, calls1) \<Rightarrow>
          case processRssResults S None (Some fw) now1 now2 st1 of
            (st2, calls2) \<Rightarrow> (st2, calls1 @ calls2))"
  by (simp add: processRssResults_def Let_def split: prod.splits)

lemma poll_none: "processRssResults S None None now1 now2 st = (st, [])"
  by (simp add: processRssResults_def)

lemma detectChanges_emitted:
  assumes "inj S"
  shows "map snd (fst (detectChanges S prev cur n)) =
           map (\<lambda>e. convertToTempItem (snd e)) (filter (new_or_modified prev) cur)"
proof -
  have same: "(\<lambda>e. case map_of prev (fst e) of None \<Rightarrow> True | Some p \<Rightarrow> hasChanged S p (snd e))
                = new_or_modified prev"
    by (auto simp: fun_eq_iff new_or_modified_def hasChanged_inj [OF assms] split: option.splits)
  show ?thesis
    unfolding detectChanges_parts detect_current_changes same ..
qed

lemma detectChanges_of_current:
  assumes c: "c \<in> set (fst (detectChanges S prev (createItemMap sw) n))"
  shows "\<exists>e \<in> set (createItemMap sw). \<exists>gs. guids_t (snd c) = Some (fst e # gs)"
proof -
  from c have "snd c \<in> set (map snd (fst (detect_current S prev (createItemMap sw) n)))"
    by (simp add: detectChanges_parts)
  then obtain e where e: "e \<in> set (createItemMap sw)" and eq: "snd c = convertToTempItem (snd e)"
    unfolding detect_current_changes by auto
  from createItemMap_guid e obtain gs where "guids_w (snd e) = Some (fst e # gs)" by blast
  with eq have "guids_t (snd c) = Some (fst e # gs)" by (simp add: convertToTempItem_def)
  with e show ?thesis by blast
qed

lemma removed_not_emitted:
  assumes gone: "map_of (createItemMap sw) g = None"
    and c: "c \<in> set (fst (detectChanges S prev (createItemMap sw) n))"
  shows "guids_t (snd c) \<noteq> Some (g # gs)"
proof
  assume a: "guids_t (snd c) = Some (g # gs)"
  from detectChanges_of_current [OF c] obtain e gs'
    where e: "e \<in> set (createItemMap sw)" and "guids_t (snd c) = Some (fst e # gs')"
    by blast
  with a have "fst e = g" by simp
  with e have "g \<in> fst ` set (createItemMap sw)" by (metis imageI)
  then have "map_of (createItemMap sw) g \<noteq> None"
    by (simp add: map_of_eq_None_iff)
  with gone show False by contradiction
qed

lemma fresh_all_added:
  assumes "\<forall>c \<in> set queue. fst c < n"
  shows "filter (\<lambda>c. fst c \<notin> fst ` set queue) (fst (detectChanges S prev cur n))
           = fst (detectChanges S prev cur n)"
proof -
  have "fst c \<notin> fst ` set queue" if "c \<in> set (fst (detectChanges S prev cur n))" for c
  proof -
    from that have "fst c \<in> set (map fst (fst (detectChanges S prev cur n)))" by simp
    then have "n \<le> fst c" unfolding detectChanges_addresses(1) by simp
    with assms show ?thesis by force
  qed
  then show ?thesis by (simp add: filter_id_conv)
qed

text \<open>
  Claim C4. A poll hands its feeds to \<^verbatim>\<open>processRssResults\<close>. Without a watchlist in
  either feed it does nothing; with one in both it is the poll of the self feed followed
  by the poll of the friends feed. For one feed, with \<open>previous\<close> the snapshot kept for
  that feed, \<open>current\<close> the snapshot map of the watchlist and \<^verbatim>\<open>JSON.stringify\<close>
  injective on arrays of strings:
  \<^item> the changes are, in order, the conversions of exactly those entries of \<open>current\<close>
    that are absent from \<open>previous\<close>, or present under the same guid key with another
    title, type, thumb or genres; they are fresh objects;
  \<^item> what is logged as removed are exactly the entries of \<open>previous\<close> whose key is absent
    from \<open>current\<close>; no change has such a key as its first guid, and the conversion of
    such an entry is not among the changes;
  \<^item> the poll appends to the change queue the changes that are not yet in it and
    leaves the rest of the queue as it was; if any was appended it stamps
    \<^verbatim>\<open>lastQueueItemTime\<close> and makes the one call \<^verbatim>\<open>storeRssWatchlistItems(changes,
    source)\<close>, and otherwise it makes no call; it makes no other call, so nothing is
    deleted; and it replaces the feed's snapshot by \<open>current\<close>;
  \<^item> when the objects of the queue were all created before the poll, every change is
    appended, and the same holds of the queue after the poll.
\<close>

theorem processRssResults_poll:
  assumes inj: "inj stringify"
  shows
  "processRssResults stringify None None now1 now2 st = (st, []) \<and>
   processRssResults stringify (Some sw) (Some fw) now1 now2 st =
     (case processRssResults stringify (Some sw) None now1 now2 st of
        (st1, calls1) \<Rightarrow>
          case processRssResults stringify None (Some fw) now1 now2 st1 of
            (st2, calls2) \<Rightarrow> (st2, calls1 @ calls2)) \<and>
   (let previous = previousSelfItems st;
        current = createItemMap sw;
        changes = fst (detectChanges stringify previous current (nextAddress st));
        logs = fst (snd (detectChanges stringify previous current (nextAddress st)));
        added = filter (\<lambda>c. fst c \<notin> fst ` set (changeQueue st)) changes
    in map snd changes =
         map (\<lambda>e. convertToTempItem (snd e)) (filter (new_or_modified previous) current) \<and>
       map fst changes = [nextAddress st ..< nextAddress st + length changes] \<and>
       (\<forall>g t. RemovedItemDetected g t \<in> set logs \<longleftrightarrow>
                (\<exists>e \<in> set previous. fst e = g \<and> title_w (snd e) = t \<and> map_of current g = None)) \<and>
       (\<forall>g gs. map_of current g = None \<longrightarrow>
                 (\<forall>c \<in> set changes. guids_t (snd c) \<noteq> Some (g # gs))) \<and>
       (\<forall>e \<in> set previous.
          map_of current (fst e) = None \<and> (\<exists>gs. guids_w (snd e) = Some (fst e # gs)) \<longrightarrow>
            convertToTempItem (snd e) \<notin> snd ` set changes) \<and>
       processRssResults stringify (Some sw) None now1 now2 st =
         (st\<lparr>nextAddress := nextAddress st + length changes,
             changeQueue := changeQueue st @ added,
             lastQueueItemTime := (if added = [] then lastQueueItemTime st else now1),
             previousSelfItems := current\<rparr>,
          if added = [] then [] else [StoreRssWatchlistItems changes self]) \<and>
       ((\<forall>c \<in> set (changeQueue st). fst c < nextAddress st) \<longrightarrow>
          added = changes \<and>
          (\<forall>c \<in> set (changeQueue st @ changes). fst c < nextAddress st + length changes))) \<and>
   (let previous = previousFriendsItems st;
        current = createItemMap fw;
        changes = fst (detectChanges stringify previous current (nextAddress st));
        logs = fst (snd (detectChanges stringify previous current (nextAddress st)));
        added = filter (\<lambda>c. fst c \<notin> fst ` set (changeQueue st)) changes
    in map snd changes =
         map (\<lambda>e. convertToTempItem (snd e)) (filter (new_or_modified previous) current) \<and>
       map fst changes = [nextAddress st ..< nextAddress st + length changes] \<and>
       (\<forall>g t. RemovedItemDetected g t \<in> set logs \<longleftrightarrow>
                (\<exists>e \<in> set previous. fst e = g \<and> title_w (snd e) = t \<and> map_of current g = None)) \<and>
       (\<forall>g gs. map_of current g = None \<longrightarrow>
                 (\<forall>c \<in> set changes. guids_t (snd c) \<noteq> Some (g # gs))) \<and>
       (\<forall>e \<in> set previous.
          map_of current (fst e) = None \<and> (\<exists>gs. guids_w (snd e) = Some (fst e # gs)) \<longrightarrow>
            convertToTempItem (snd e) \<notin> snd ` set changes) \<and>
       processRssResults stringify None (Some fw) now1 now2 st =
         (st\<lparr>nextAddress := nextAddress st + length changes,
             changeQueue := changeQueue st @ added,
             lastQueueItemTime := (if added = [] then lastQueueItemTime st else now2),
             previousFriendsItems := current\<rparr>,
          if added = [] then [] else [StoreRssWatchlistItems changes friends]) \<and>
       ((\<forall>c \<in> set (changeQueue st). fst c < nextAddress st) \<longrightarrow>
          added = changes \<and>
          (\<forall>c \<in> set (changeQueue st @ changes). fst c < nextAddress st + length changes)))"
proof -
  have fresh: "(\<forall>c \<in> set (changeQueue st). fst c < nextAddress st) \<longrightarrow>
          filter (\<lambda>c. fst c \<notin> fst ` set (changeQueue st))
            (fst (detectChanges stringify prev cur (nextAddress st)))
            = fst (detectChanges stringify prev cur (nextAddress st)) \<and>
          (\<forall>c \<in> set (changeQueue st @ fst (detectChanges stringify prev cur (nextAddress st))).
             fst c < nextAddress st + length (fst (detectChanges stringify prev cur (nextAddress st))))"
    for prev cur
  proof (intro impI conjI)
    assume a: "\<forall>c \<in> set (changeQueue st). fst c < nextAddress st"
    then show "filter (\<lambda>c. fst c \<notin> fst ` set (changeQueue st))
            (fst (detectChanges stringify prev cur (nextAddress st)))
            = fst (detectChanges stringify prev cur (nextAddress st))"
      by (rule fresh_all_added)
    have "fst c < nextAddress st + length (fst (detectChanges stringify prev cur (nextAddress st)))"
      if "c \<in> set (fst (detectChanges stringify prev cur (nextAddress st)))" for c
    proof -
      from that have "fst c \<in> set (map fst (fst (detectChanges stringify prev cur (nextAddress st))))"
        by simp
      then show ?thesis unfolding detectChanges_addresses(1) by simp
    qed
    with a show "\<forall>c \<in> set (changeQueue st @ fst (detectChanges stringify prev cur (nextAddress st))).
             fst c < nextAddress st + length (fst (detectChanges stringify prev cur (nextAddress st)))"
      by fastforce
  qed
  have gone: "\<forall>g gs. map_of (createItemMap w) g = None \<longrightarrow>
            (\<forall>c \<in> set (fst (detectChanges stringify prev (createItemMap w) (nextAddress st))).
               guids_t (snd c) \<noteq> Some (g # gs))" for prev w
    using removed_not_emitted by blast
  have logged: "\<forall>g t. RemovedItemDetected g t
              \<in> set (fst (snd (detectChanges stringify prev cur (nextAddress st)))) \<longleftrightarrow>
            (\<exists>e \<in> set prev. fst e = g \<and> title_w (snd e) = t \<and> map_of cur g = None)" for prev cur
    using detectChanges_parts(3) by blast
  have item: "\<forall>e \<in> set prev.
          map_of (createItemMap w) (fst e) = None \<and> (\<exists>gs. guids_w (snd e) = Some (fst e # gs)) \<longrightarrow>
            convertToTempItem (snd e)
              \<notin> snd ` set (fst (detectChanges stringify prev (createItemMap w) (nextAddress st)))"
    for prev w
  proof (intro ballI impI notI)
    fix e :: "string \<times> WatchlistEntry"
    assume "map_of (createItemMap w) (fst e) = None \<and> (\<exists>gs. guids_w (snd e) = Some (fst e # gs))"
    then obtain gs where g: "map_of (createItemMap w) (fst e) = None"
      and k: "guids_w (snd e) = Some (fst e # gs)" by blast
    assume "convertToTempItem (snd e)
              \<in> snd ` set (fst (detectChanges stringify prev (createItemMap w) (nextAddress st)))"
    then obtain c where c: "c \<in> set (fst (detectChanges stringify prev (createItemMap w) (nextAddress st)))"
      and eq: "snd c = convertToTempItem (snd e)" by auto
    from eq k have "guids_t (snd c) = Some (fst e # gs)" by (simp add: convertToTempItem_def)
    with removed_not_emitted [OF g c, of gs] show False by simp
  qed
  show ?thesis
    unfolding Let_def
    by (intro conjI poll_none poll_both detectChanges_emitted [OF inj] detectChanges_addresses(1)
        logged gone item poll_self poll_friends fresh)
qed


theorem processRssResults_poll_witness:
  "inj JSON_stringify \<and>
   changeQueue ex_polled =
     [(0, convertToTempItem (ex_entry ''g1'' ''Old'')),
      (1, convertToTempItem (ex_entry ''g2'' ''Gone'')),
      (2, convertToTempItem (ex_entry ''g4'' ''Same''))] \<and>
   nextAddress ex_polled = 3 \<and>
   detectChanges JSON_stringify (previousSelfItems ex_polled)
       (createItemMap [ex_entry ''g1'' ''New'', ex_entry ''g3'' ''Fresh'', ex_entry ''g4'' ''Same''])
       (nextAddress ex_polled)
     = ([(3, convertToTempItem (ex_entry ''g1'' ''New'')),
         (4, convertToTempItem (ex_entry ''g3'' ''Fresh''))],
        [ModifiedItemDetected ''g1'' ''New'', NewItemDetected ''g3'' ''Fresh'',
         RemovedItemDetected ''g2'' ''Gone'', DetectedRssFeedChanges 2 3 3],
        5) \<and>
   processRssResults JSON_stringify
       (Some [ex_entry ''g1'' ''New'', ex_entry ''g3'' ''Fresh'', ex_entry ''g4'' ''Same''])
       None 11000 11000 ex_polled
     = (ex_polled
          \<lparr>nextAddress := 5,
           changeQueue :=
             [(0, convertToTempItem (ex_entry ''g1'' ''Old'')),
              (1, convertToTempItem (ex_entry ''g2'' ''Gone'')),
              (2, convertToTempItem (ex_entry ''g4'' ''Same'')),
              (3, convertToTempItem (ex_entry ''g1'' ''New'')),
              (4, convertToTempItem (ex_entry ''g3'' ''Fresh''))],
           lastQueueItemTime := 11000,
           previousSelfItems :=
             createItemMap [ex_entry ''g1'' ''New'', ex_entry ''g3'' ''Fresh'', ex_entry ''g4'' ''Same'']\<rparr>,
        [StoreRssWatchlistItems
           [(3, convertToTempItem (ex_entry ''g1'' ''New'')),
            (4, convertToTempItem (ex_entry ''g3'' ''Fresh''))] self]) \<and>
   map snd (fst (detectChanges JSON_stringify (previousSelfItems ex_polled)
       (createItemMap [ex_entry ''g1'' ''New'', ex_entry ''g3'' ''Fresh'', ex_entry ''g4'' ''Same''])
       (nextAddress ex_polled))) =
     map (\<lambda>e. convertToTempItem (snd e))
       (filter (new_or_modified (previousSelfItems ex_polled))
          (createItemMap [ex_entry ''g1'' ''New'', ex_entry ''g3'' ''Fresh'', ex_entry ''g4'' ''Same''])) \<and>
   list_all (\<lambda>c. fst c < nextAddress ex_polled) (changeQueue ex_polled) \<and>
   filter (\<lambda>c. fst c \<notin> fst ` set (changeQueue ex_polled))
       (fst (detectChanges JSON_stringify (previousSelfItems ex_polled)
          (createItemMap [ex_entry ''g1'' ''New'', ex_entry ''g3'' ''Fresh'', ex_entry ''g4'' ''Same''])
          (nextAddress ex_polled)))
     = fst (detectChanges JSON_stringify (previousSelfItems ex_polled)
          (createItemMap [ex_entry ''g1'' ''New'', ex_entry ''g3'' ''Fresh'', ex_entry ''g4'' ''Same''])
          (nextAddress ex_polled)) \<and>
   map_of (previousSelfItems ex_polled) ''g2'' = Some (ex_entry ''g2'' ''Gone'') \<and>
   map_of (createItemMap [ex_entry ''g1'' ''New'', ex_entry ''g3'' ''Fresh'', ex_entry ''g4'' ''Same''])
       ''g2'' = None \<and>
   list_all (\<lambda>c. guids_t (snd c) \<noteq> Some [''g2''])
     (fst (detectChanges JSON_stringify (previousSelfItems ex_polled)
        (createItemMap [ex_entry ''g1'' ''New'', ex_entry ''g3'' ''Fresh'', ex_entry ''g4'' ''Same''])
        (nextAddress ex_polled)))"
proof -
  let ?cur = "[ex_entry ''g1'' ''New'', ex_entry ''g3'' ''Fresh'', ex_entry ''g4'' ''Same'']"
  have q: "changeQueue ex_polled =
     [(0, convertToTempItem (ex_entry ''g1'' ''Old'')),
      (1, convertToTempItem (ex_entry ''g2'' ''Gone'')),
      (2, convertToTempItem (ex_entry ''g4'' ''Same''))]"
    by code_simp
  have n: "nextAddress ex_polled = 3"
    by code_simp
  have d: "detectChanges JSON_stringify (previousSelfItems ex_polled) (createItemMap ?cur)
       (nextAddress ex_polled)
     = ([(3, convertToTempItem (ex_entry ''g1'' ''New'')),
         (4, convertToTempItem (ex_entry ''g3'' ''Fresh''))],
        [ModifiedItemDetected ''g1'' ''New'', NewItemDetected ''g3'' ''Fresh'',
         RemovedItemDetected ''g2'' ''Gone'', DetectedRssFeedChanges 2 3 3],
        5)"
    by code_simp
  have run: "processRssResults JSON_stringify (Some ?cur) None 11000 11000 ex_polled
     = (ex_polled
          \<lparr>nextAddress := 5,
           changeQueue :=
             [(0, convertToTempItem (ex_entry ''g1'' ''Old'')),
              (1, convertToTempItem (ex_entry ''g2'' ''Gone'')),
              (2, convertToTempItem (ex_entry ''g4'' ''Same'')),
              (3, convertToTempItem (ex_entry ''g1'' ''New'')),
              (4, convertToTempItem (ex_entry ''g3'' ''Fresh''))],
           lastQueueItemTime := 11000,
           previousSelfItems := createItemMap ?cur\<rparr>,
        [StoreRssWatchlistItems
           [(3, convertToTempItem (ex_entry ''g1'' ''New'')),
            (4, convertToTempItem (ex_entry ''g3'' ''Fresh''))] self])"
    by code_simp
  note inst = processRssResults_poll [OF inj_JSON_stringify, of 11000 11000 ex_polled ?cur ?cur,
      unfolded Let_def]
  note side = inst [THEN conjunct2, THEN conjunct2, THEN conjunct1]
  note emitted = side [THEN conjunct1]
  note gone = side [THEN conjunct2, THEN conjunct2, THEN conjunct2, THEN conjunct1]
  note fresh = side [THEN conjunct2, THEN conjunct2, THEN conjunct2, THEN conjunct2,
      THEN conjunct2, THEN conjunct2]
  have f: "list_all (\<lambda>c. fst c < nextAddress ex_polled) (changeQueue ex_polled)"
    by code_simp
  then have "\<forall>c \<in> set (changeQueue ex_polled). fst c < nextAddress ex_polled"
    by (simp add: list_all_iff)
  with fresh have all: "filter (\<lambda>c. fst c \<notin> fst ` set (changeQueue ex_polled))
       (fst (detectChanges JSON_stringify (previousSelfItems ex_polled) (createItemMap ?cur)
          (nextAddress ex_polled)))
     = fst (detectChanges JSON_stringify (previousSelfItems ex_polled) (createItemMap ?cur)
          (nextAddress ex_polled))"
    by blast
  have p: "map_of (previousSelfItems ex_polled) ''g2'' = Some (ex_entry ''g2'' ''Gone'')"
    by code_simp
  have c: "map_of (createItemMap ?cur) ''g2'' = None"
    by code_simp
  with gone have "\<forall>c \<in> set (fst (detectChanges JSON_stringify (previousSelfItems ex_polled)
        (createItemMap ?cur) (nextAddress ex_polled))). guids_t (snd c) \<noteq> Some [''g2'']"
    by blast
  then have g: "list_all (\<lambda>c. guids_t (snd c) \<noteq> Some [''g2''])
     (fst (detectChanges JSON_stringify (previousSelfItems ex_polled) (createItemMap ?cur)
        (nextAddress ex_polled)))"
    by (simp add: list_all_iff)
  from inj_JSON_stringify q n d run emitted f all p c g show ?thesis
    by (intro conjI)
qed

subsection \<open>The change queue\<close>

text \<open>
  Claim C6 says that the queue never holds two items equal by value and that
  \<^verbatim>\<open>lastQueueItemTime\<close> moves only when a genuinely new item enters. The code tests
  \<^verbatim>\<open>this.changeQueue.has(item)\<close>, which compares references, on objects that
  \<^verbatim>\<open>convertToTempItem\<close> has just created, so the test never finds the item. Two runs:
  \<^item> three polls of the self feed, 10 s apart, in which an item is present, absent and
    present again;
  \<^item> one poll that finds the same item in the self feed and in the friends feed.
  Each ends with two items of equal fields in the queue, at the addresses 0 and 1, and
  with the time stamp of the second, value-identical, item.
\<close>

theorem changeQueue_value_duplicate:
  "(case processRssResults JSON_stringify (Some [ex_entry ''g1'' ''Dune'']) None 1000 1000
           ex_workflow of
      (st1, calls1) \<Rightarrow>
        case processRssResults JSON_stringify (Some []) None 11000 11000 st1 of
          (st2, calls2) \<Rightarrow>
            case processRssResults JSON_stringify (Some [ex_entry ''g1'' ''Dune'']) None 21000 21000
                   st2 of
              (st3, calls3) \<Rightarrow>
                changeQueue st1 = [(0, convertToTempItem (ex_entry ''g1'' ''Dune''))] \<and>
                lastQueueItemTime st1 = 1000 \<and>
                changeQueue st3 = [(0, convertToTempItem (ex_entry ''g1'' ''Dune'')),
                                   (1, convertToTempItem (ex_entry ''g1'' ''Dune''))] \<and>
                lastQueueItemTime st3 = 21000) \<and>
   (case processRssResults JSON_stringify
           (Some [ex_entry ''g1'' ''Dune'']) (Some [ex_entry ''g1'' ''Dune'']) 1000 2000 ex_workflow of
      (st, calls) \<Rightarrow>
        changeQueue st = [(0, convertToTempItem (ex_entry ''g1'' ''Dune'')),
                          (1, convertToTempItem (ex_entry ''g1'' ''Dune''))] \<and>
        lastQueueItemTime st = 2000 \<and>
        calls = [StoreRssWatchlistItems [(0, convertToTempItem (ex_entry ''g1'' ''Dune''))] self,
                 StoreRssWatchlistItems [(1, convertToTempItem (ex_entry ''g1'' ''Dune''))] friends])"
  by code_simp

end
